theory Spec2Isabelle
  imports Complex_Main
begin

section \<open>Numbers and strings of the script\<close>

text \<open>
  The script \<^verbatim>\<open>src/static/script.js\<close> is one class, \<^verbatim>\<open>YouTubeDownloader\<close>.
  Numbers that arrive in a JSON body are decimal literals; they are modelled as
  rationals (\<^typ>\<open>rat\<close>), which is exact for every value the formatting functions
  are evaluated on below (integers and dyadic fractions); the rounding of IEEE doubles
  is not modelled. A field that is absent (\<^verbatim>\<open>undefined\<close>) is \<^const>\<open>None\<close>.
  Strings are byte strings: ASCII for everything the script compares.
\<close>

subsection \<open>Number to string\<close>

definition digit_char :: "nat \<Rightarrow> char" where
  "digit_char d = ''0123456789'' ! d"

text \<open>Decimal digits of a natural number, as \<^verbatim>\<open>String(n)\<close> gives for an integer.\<close>

fun show_nat :: "nat \<Rightarrow> string" where
  "show_nat n =
     (if n < 10 then [digit_char n] else show_nat (n div 10) @ [digit_char (n mod 10)])"

declare show_nat.simps [simp del]

definition show_int :: "int \<Rightarrow> string" where
  "show_int i = (if i < 0 then CHR ''-'' # show_nat (nat (- i)) else show_nat (nat i))"

text \<open>
  \<^verbatim>\<open>x.toFixed(1)\<close>: the sign is split off, \<open>n\<close> is the integer with \<open>n / 10\<close> closest to
  \<open>\<bar>x\<bar>\<close> (the larger one at a tie), and the decimal point goes before its last digit.
\<close>

definition toFixed1 :: "rat \<Rightarrow> string" where
  "toFixed1 x =
     (let a = \<bar>x\<bar>;
          n = nat \<lfloor>a * 10 + 1 / 2\<rfloor>;
          digits = show_nat (n div 10) @ ''.'' @ show_nat (n mod 10)
      in if x < 0 then CHR ''-'' # digits else digits)"

text \<open>\<^verbatim>\<open>a % b\<close> on numbers: the remainder of the division truncated towards zero.\<close>

definition js_trunc :: "rat \<Rightarrow> int" where
  "js_trunc x = (if x < 0 then \<lceil>x\<rceil> else \<lfloor>x\<rfloor>)"

definition js_rem :: "rat \<Rightarrow> rat \<Rightarrow> rat" where
  "js_rem a b = a - b * of_int (js_trunc (a / b))"

text \<open>\<^verbatim>\<open>Math.round\<close>: the nearest integer, a tie going up.\<close>

definition js_round :: "rat \<Rightarrow> int" where
  "js_round x = \<lfloor>x + 1 / 2\<rfloor>"

section \<open>Formatting\<close>

subsection \<open>formatSpeed\<close>

definition units :: "string list" where
  "units = [''B/s'', ''KB/s'', ''MB/s'', ''GB/s'']"

text \<open>
  The loop \<^verbatim>\<open>while (speed >= 1024 && unitIndex < units.length - 1)\<close> with its two
  variables.
\<close>

function speed_loop :: "rat \<Rightarrow> nat \<Rightarrow> rat \<times> nat" where
  "speed_loop speed unitIndex =
     (if speed \<ge> 1024 \<and> unitIndex < length units - 1
      then speed_loop (speed / 1024) (unitIndex + 1)
      else (speed, unitIndex))"
  by pat_completeness auto
termination
  by (relation "measure (\<lambda>(speed, unitIndex). length units - 1 - unitIndex)") auto

declare speed_loop.simps [simp del]

definition formatSpeed :: "rat option \<Rightarrow> string" where
  "formatSpeed bytesPerSecond =
     (case bytesPerSecond of
        None \<Rightarrow> ''0 B/s''
      | Some b \<Rightarrow>
          if b = 0 then ''0 B/s''
          else (case speed_loop b 0 of
                  (speed, unitIndex) \<Rightarrow> toFixed1 speed @ '' '' @ units ! unitIndex))"

subsection \<open>formatTime\<close>

definition formatTime :: "rat option \<Rightarrow> string" where
  "formatTime seconds =
     (case seconds of
        None \<Rightarrow> ''0s''
      | Some s \<Rightarrow>
          if s = 0 \<or> s < 0 then ''0s''
          else if s < 60 then show_int \<lceil>s\<rceil> @ ''s''
          else if s < 3600 then
            (let mins = \<lfloor>s / 60\<rfloor>; secs = \<lceil>js_rem s 60\<rceil>
             in show_int mins @ ''m '' @ show_int secs @ ''s'')
          else
            (let hours = \<lfloor>s / 3600\<rfloor>; mins = \<lfloor>js_rem s 3600 / 60\<rfloor>
             in show_int hours @ ''h '' @ show_int mins @ ''m''))"

section \<open>The validator\<close>

subsection \<open>Regular expressions of the script\<close>

text \<open>
  The four patterns of \<^verbatim>\<open>isValidYouTubeUrl\<close> are sequences of three kinds of item: a run
  of literal characters, an optional literal (\<^verbatim>\<open>s?\<close>, \<^verbatim>\<open>(www\.)?\<close>) and a character class
  repeated at least once (\<^verbatim>\<open>[\w-]+\<close>). Every pattern starts with \<^verbatim>\<open>^\<close> and none ends with
  \<^verbatim>\<open>$\<close>, so \<^verbatim>\<open>test\<close> asks for a match of some prefix of the string. The patterns carry no
  \<^verbatim>\<open>g\<close> or \<^verbatim>\<open>y\<close> flag, so \<^verbatim>\<open>test\<close> keeps no state between calls.
\<close>

datatype regex_item =
    Lit string
  | Opt string
  | Plus1 "char \<Rightarrow> bool"

text \<open>
  The matcher is the backtracking one: each item yields the remainders it can leave, in
  the order the engine tries them (the optional literal taken first, the longest
  repetition first), and a sequence tries its items from left to right.
\<close>

fun strip_prefix :: "string \<Rightarrow> string \<Rightarrow> string option" where
  "strip_prefix [] s = Some s"
| "strip_prefix (c # l) [] = None"
| "strip_prefix (c # l) (x # s) = (if c = x then strip_prefix l s else None)"

fun plus_rests :: "(char \<Rightarrow> bool) \<Rightarrow> string \<Rightarrow> string list" where
  "plus_rests cls [] = []"
| "plus_rests cls (x # s) = (if cls x then plus_rests cls s @ [s] else [])"

fun item_rests :: "regex_item \<Rightarrow> string \<Rightarrow> string list" where
  "item_rests (Lit l) s = (case strip_prefix l s of None \<Rightarrow> [] | Some r \<Rightarrow> [r])"
| "item_rests (Opt l) s = (case strip_prefix l s of None \<Rightarrow> [s] | Some r \<Rightarrow> [r, s])"
| "item_rests (Plus1 cls) s = plus_rests cls s"

fun seq_rests :: "regex_item list \<Rightarrow> string \<Rightarrow> string list" where
  "seq_rests [] s = [s]"
| "seq_rests (i # p) s = concat (map (seq_rests p) (item_rests i s))"

definition regex_test :: "regex_item list \<Rightarrow> string \<Rightarrow> bool" where
  "regex_test p s = (seq_rests p s \<noteq> [])"

text \<open>\<^verbatim>\<open>\w\<close> is \<^verbatim>\<open>[A-Za-z0-9_]\<close>.\<close>

definition word_char :: "char \<Rightarrow> bool" where
  "word_char c \<longleftrightarrow>
     c \<in> set (''abcdefghijklmnopqrstuvwxyz'' @ ''ABCDEFGHIJKLMNOPQRSTUVWXYZ'' @ ''0123456789_'')"

definition word_or_hyphen :: "char \<Rightarrow> bool" where
  "word_or_hyphen c \<longleftrightarrow> word_char c \<or> c = CHR ''-''"

definition patterns :: "regex_item list list" where
  "patterns =
     [[Lit ''http'', Opt ''s'', Lit ''://'', Opt ''www.'', Lit ''youtube.com/watch?v='',
       Plus1 word_or_hyphen],
      [Lit ''http'', Opt ''s'', Lit ''://youtu.be/'', Plus1 word_or_hyphen],
      [Lit ''http'', Opt ''s'', Lit ''://'', Opt ''www.'', Lit ''youtube.com/shorts/'',
       Plus1 word_or_hyphen],
      [Lit ''http'', Opt ''s'', Lit ''://'', Opt ''www.'', Lit ''youtube.com/embed/'',
       Plus1 word_or_hyphen]]"

text \<open>
  \<^verbatim>\<open>url.trim()\<close> removes white space and line terminators from both ends. The ASCII
  ones are listed; the others (such as U+00A0) are not single bytes. The result of
  \<^verbatim>\<open>isValidYouTubeUrl\<close> does not depend on them: no pattern matches a string that starts
  with anything but \<^verbatim>\<open>h\<close>.
\<close>

definition js_space :: "char \<Rightarrow> bool" where
  "js_space c \<longleftrightarrow> c \<in> {CHR 0x09, CHR 0x0A, CHR 0x0B, CHR 0x0C, CHR 0x0D, CHR '' ''}"

definition js_trim :: "string \<Rightarrow> string" where
  "js_trim s = rev (dropWhile js_space (rev (dropWhile js_space s)))"

definition isValidYouTubeUrl :: "string \<Rightarrow> bool" where
  "isValidYouTubeUrl url =
     (if url = [] \<or> js_trim url = [] then False
      else list_ex (\<lambda>pattern. regex_test pattern url) patterns)"

subsection \<open>The four locator shapes, as the specification words them\<close>

text \<open>
  A watch-page link, a short link, a shorts link and an embed link: a scheme, an optional
  \<^verbatim>\<open>www.\<close>, the host and path, and then a non-empty identifier of word characters and
  hyphens that is trailing, so that the string ends with it.
\<close>

definition is_identifier :: "string \<Rightarrow> bool" where
  "is_identifier w \<longleftrightarrow> w \<noteq> [] \<and> (\<forall>c \<in> set w. word_char c \<or> c = CHR ''-'')"

definition watch_page_link :: "string \<Rightarrow> bool" where
  "watch_page_link u \<longleftrightarrow>
     (\<exists>scheme www ident.
        scheme \<in> {''http'', ''https''} \<and> www \<in> {'''', ''www.''} \<and> is_identifier ident \<and>
        u = scheme @ ''://'' @ www @ ''youtube.com/watch?v='' @ ident)"

definition short_link :: "string \<Rightarrow> bool" where
  "short_link u \<longleftrightarrow>
     (\<exists>scheme ident.
        scheme \<in> {''http'', ''https''} \<and> is_identifier ident \<and>
        u = scheme @ ''://youtu.be/'' @ ident)"

definition shorts_link :: "string \<Rightarrow> bool" where
  "shorts_link u \<longleftrightarrow>
     (\<exists>scheme www ident.
        scheme \<in> {''http'', ''https''} \<and> www \<in> {'''', ''www.''} \<and> is_identifier ident \<and>
        u = scheme @ ''://'' @ www @ ''youtube.com/shorts/'' @ ident)"

definition embed_link :: "string \<Rightarrow> bool" where
  "embed_link u \<longleftrightarrow>
     (\<exists>scheme www ident.
        scheme \<in> {''http'', ''https''} \<and> www \<in> {'''', ''www.''} \<and> is_identifier ident \<and>
        u = scheme @ ''://'' @ www @ ''youtube.com/embed/'' @ ident)"

definition isAcceptableLocator :: "string \<Rightarrow> bool" where
  "isAcceptableLocator u \<longleftrightarrow> watch_page_link u \<or> short_link u \<or> shorts_link u \<or> embed_link u"

text \<open>The input begins with a locator: a locator followed by any text, or by none.\<close>

definition begins_with_locator :: "string \<Rightarrow> bool" where
  "begins_with_locator u \<longleftrightarrow> (\<exists>p rest. isAcceptableLocator p \<and> u = p @ rest)"

subsection \<open>The language of a pattern\<close>

text \<open>The strings an item and a sequence of items match in full; used to reason about the matcher.\<close>

fun item_lang :: "regex_item \<Rightarrow> string set" where
  "item_lang (Lit l) = {l}"
| "item_lang (Opt l) = {[], l}"
| "item_lang (Plus1 cls) = {m. m \<noteq> [] \<and> (\<forall>x \<in> set m. cls x)}"

fun seq_lang :: "regex_item list \<Rightarrow> string set" where
  "seq_lang [] = {[]}"
| "seq_lang (i # p) = {a @ b | a b. a \<in> item_lang i \<and> b \<in> seq_lang p}"

section \<open>The controller\<close>

subsection \<open>Responses of the backend\<close>

text \<open>
  Modelled from the spec: the types of the properties of the two endpoints' bodies
  (\<^verbatim>\<open>task_id\<close>, \<^verbatim>\<open>message\<close>, \<^verbatim>\<open>error\<close>, \<^verbatim>\<open>status\<close> and \<^verbatim>\<open>filename\<close> are strings,
  \<^verbatim>\<open>progress\<close>, \<^verbatim>\<open>speed\<close> and \<^verbatim>\<open>eta\<close> numbers), which the script reads and does not
  declare. A property that is absent reads as \<^verbatim>\<open>undefined\<close> (\<^const>\<open>None\<close>).
\<close>

record json_object =
  task_id :: "string option"
  message :: "string option"
  error :: "string option"
  status :: "string option"
  progress :: "rat option"
  speed :: "rat option"
  eta :: "rat option"
  filename :: "string option"

text \<open>
  \<^verbatim>\<open>await fetch(...)\<close> either rejects (a transport failure, with the error's message) or
  resolves to a response with its \<^verbatim>\<open>ok\<close> flag. \<^verbatim>\<open>await response.json()\<close> then either
  rejects (the body is not JSON, with the parser's message), or gives \<^verbatim>\<open>null\<close>, or gives
  a value whose properties can be read.
\<close>

datatype body = ParseError string | NullBody | Obj json_object

datatype fetch_result = NetworkError string | Response bool body

text \<open>\<^verbatim>\<open>a || d\<close> for an optional string: the empty string is falsy, as \<^verbatim>\<open>undefined\<close> is.\<close>

definition str_or :: "string option \<Rightarrow> string \<Rightarrow> string" where
  "str_or a d = (case a of None \<Rightarrow> d | Some s \<Rightarrow> if s = [] then d else s)"

text \<open>\<^verbatim>\<open>a || 0\<close> for an optional number.\<close>

definition num_or_zero :: "rat option \<Rightarrow> rat" where
  "num_or_zero a = (case a of None \<Rightarrow> 0 | Some p \<Rightarrow> p)"

text \<open>
  The message of the \<^verbatim>\<open>TypeError\<close> raised by reading a property of \<^verbatim>\<open>null\<close>; its wording
  is the engine's.
\<close>

definition null_property_error :: "string \<Rightarrow> string" where
  "null_property_error p = ''Cannot read properties of null (reading '' @ p @ '')''"

subsection \<open>The state of a downloader\<close>

text \<open>\<^verbatim>\<open>this.currentTaskId\<close>: \<^verbatim>\<open>null\<close>, \<^verbatim>\<open>undefined\<close> (a response without \<^verbatim>\<open>task_id\<close>) or a string.\<close>

datatype taskref = Null | Undefined | TaskId string

definition falsy_task :: "taskref \<Rightarrow> bool" where
  "falsy_task t = (case t of TaskId s \<Rightarrow> s = [] | _ \<Rightarrow> True)"

text \<open>The task id as a template literal renders it.\<close>

definition task_text :: "taskref \<Rightarrow> string" where
  "task_text t = (case t of Null \<Rightarrow> ''null'' | Undefined \<Rightarrow> ''undefined'' | TaskId s \<Rightarrow> s)"

record request =
  url :: string
  format_type :: string
  quality :: string

text \<open>
  A pending \<^verbatim>\<open>requestAnimationFrame(animate)\<close>: the closure of \<^verbatim>\<open>animatePercentage\<close> holds
  \<^verbatim>\<open>startPercent\<close>, \<^verbatim>\<open>targetPercent\<close> and \<^verbatim>\<open>startTime\<close>.
\<close>

record animation =
  startPercent :: rat
  targetPercent :: rat
  startTime :: rat

text \<open>
  The fields of the object, the properties of the page's elements that the script writes,
  and what the browser holds for it: the live interval timers, the requests in flight and
  the frame callbacks that are pending. A container is \<^const>\<open>True\<close> when it is displayed;
  \<open>progressFill\<close> is the number written to \<^verbatim>\<open>style.width\<close> (before the \<^verbatim>\<open>%\<close>),
  \<open>progressPercent\<close> the integer written to the percentage's text, \<open>submitBtn\<close> the
  button's \<^verbatim>\<open>disabled\<close>, \<open>downloadBtn\<close> its \<^verbatim>\<open>href\<close>.
\<close>

record downloader =
  lastPercent :: rat
  currentTaskId :: taskref
  pollInterval :: "nat option"
  progressContainer :: bool
  errorContainer :: bool
  resultContainer :: bool
  progressFill :: rat
  progressStatus :: string
  progressPercent :: int
  progressInfo :: string
  errorMessage :: string
  resultFilename :: string
  downloadBtn :: string
  submitBtn :: bool
  timers :: "nat list"
  next_timer :: nat
  submit_fetches :: "request list"
  status_fetches :: "string list"
  frames :: "animation list"
  console_errors :: "string list"

text \<open>
  The constructor sets \<open>lastPercent\<close>, \<open>currentTaskId\<close> and \<open>pollInterval\<close>. The page's
  markup is not part of the script: the containers are taken as hidden and the texts as
  empty. Timer handles are positive.
\<close>

definition new_downloader :: downloader where
  "new_downloader =
     \<lparr>lastPercent = 0, currentTaskId = Null, pollInterval = None,
      progressContainer = False, errorContainer = False, resultContainer = False,
      progressFill = 0, progressStatus = [], progressPercent = 0, progressInfo = [],
      errorMessage = [], resultFilename = [], downloadBtn = [], submitBtn = False,
      timers = [], next_timer = 1, submit_fetches = [], status_fetches = [], frames = [],
      console_errors = []\<rparr>"

subsection \<open>The methods\<close>

definition hideAllContainers :: "downloader \<Rightarrow> downloader" where
  "hideAllContainers s =
     s\<lparr>progressContainer := False, errorContainer := False, resultContainer := False\<rparr>"

definition showError :: "string \<Rightarrow> downloader \<Rightarrow> downloader" where
  "showError msg s = (hideAllContainers s)\<lparr>errorContainer := True, errorMessage := msg\<rparr>"

definition showProgress :: "downloader \<Rightarrow> downloader" where
  "showProgress s = (hideAllContainers s)\<lparr>progressContainer := True\<rparr>"

definition showResult :: "json_object \<Rightarrow> downloader \<Rightarrow> downloader" where
  "showResult data s =
     (hideAllContainers s)
       \<lparr>resultContainer := True,
        resultFilename := str_or (filename data) ''Download ready'',
        downloadBtn := ''/download/'' @ task_text (currentTaskId s)\<rparr>"

definition setLoadingState :: "bool \<Rightarrow> downloader \<Rightarrow> downloader" where
  "setLoadingState loading s = s\<lparr>submitBtn := loading\<rparr>"

text \<open>\<^verbatim>\<open>clearInterval(h)\<close>: the timer \<open>h\<close> fires no more.\<close>

definition clearInterval :: "nat \<Rightarrow> downloader \<Rightarrow> downloader" where
  "clearInterval h s = s\<lparr>timers := removeAll h (timers s)\<rparr>"

definition stopPolling :: "downloader \<Rightarrow> downloader" where
  "stopPolling s =
     (case pollInterval s of
        None \<Rightarrow> s
      | Some h \<Rightarrow> (clearInterval h s)\<lparr>pollInterval := None\<rparr>)"

text \<open>\<^verbatim>\<open>setInterval\<close> hands out a fresh handle; the callback is the poll tick below.\<close>

definition startPolling :: "downloader \<Rightarrow> downloader" where
  "startPolling s =
     (let s1 = (case pollInterval s of None \<Rightarrow> s | Some h \<Rightarrow> clearInterval h s);
          h' = next_timer s1
      in s1\<lparr>pollInterval := Some h', timers := timers s1 @ [h'], next_timer := Suc h'\<rparr>)"

definition resetUI :: "downloader \<Rightarrow> downloader" where
  "resetUI s =
     stopPolling
       ((hideAllContainers s)
          \<lparr>progressFill := 0, progressStatus := ''Preparing...'', progressPercent := 0,
           progressInfo := [], lastPercent := 0, currentTaskId := Null\<rparr>)"

text \<open>
  \<^verbatim>\<open>animatePercentage\<close> reads \<open>lastPercent\<close> and the clock (\<^verbatim>\<open>performance.now()\<close>, the
  argument \<open>now\<close>) and requests the first frame.
\<close>

definition animatePercentage :: "rat \<Rightarrow> rat \<Rightarrow> downloader \<Rightarrow> downloader" where
  "animatePercentage target now s =
     s\<lparr>frames := frames s @
          [\<lparr>startPercent = lastPercent s, targetPercent = target, startTime = now\<rparr>]\<rparr>"

definition drop_at :: "nat \<Rightarrow> 'a list \<Rightarrow> 'a list" where
  "drop_at i xs = take i xs @ drop (Suc i) xs"

text \<open>
  The frame callback \<^verbatim>\<open>animate(currentTime)\<close> of the pending animation \<open>a\<close>: it writes the
  eased percentage and either requests the next frame or records the target.
\<close>

definition easeOut :: "rat \<Rightarrow> rat" where
  "easeOut p = 1 - (1 - p) ^ 3"

definition animate :: "nat \<Rightarrow> rat \<Rightarrow> downloader \<Rightarrow> downloader" where
  "animate i currentTime s =
     (let a = frames s ! i;
          elapsed = currentTime - startTime a;
          p = min (elapsed / 300) 1;
          currentPercent =
            js_round (startPercent a + (targetPercent a - startPercent a) * easeOut p);
          s1 = s\<lparr>progressPercent := currentPercent\<rparr>
      in if p < 1 then s1\<lparr>frames := drop_at i (frames s) @ [a]\<rparr>
         else s1\<lparr>lastPercent := targetPercent a, frames := drop_at i (frames s)\<rparr>)"

text \<open>
  The separator of the info line, as the bytes of the source file have it between
  \<^verbatim>\<open>${speed}\<close> and \<^verbatim>\<open>${eta}\<close>.
\<close>

definition info_separator :: string where
  "info_separator =
     [CHR '' '', CHR 0xC3, CHR 0xA2, CHR 0xE2, CHR 0x82, CHR 0xAC, CHR 0xC2, CHR 0xA2, CHR '' '']"

definition status_label :: "string option \<Rightarrow> string" where
  "status_label st =
     (let statusText = str_or st ''processing''
      in if statusText = ''downloading'' then ''Downloading...''
         else if statusText = ''processing'' then ''Processing...''
         else statusText)"

definition info_line :: "json_object \<Rightarrow> string" where
  "info_line data =
     (case speed data of
        None \<Rightarrow> []
      | Some v \<Rightarrow>
          if v \<noteq> 0 \<and> v > 0 then
            (let sp = formatSpeed (Some v);
                 et = (case eta data of
                         None \<Rightarrow> []
                       | Some e \<Rightarrow> if e = 0 then [] else formatTime (Some e))
             in if et \<noteq> [] then sp @ info_separator @ et @ '' remaining'' else sp)
          else [])"

definition updateProgress :: "json_object \<Rightarrow> rat \<Rightarrow> downloader \<Rightarrow> downloader" where
  "updateProgress data now s =
     (let p = min (num_or_zero (progress data)) 100
      in (animatePercentage p now s)
           \<lparr>progressFill := p,
            progressStatus := status_label (status data),
            progressInfo := info_line data\<rparr>)"

subsection \<open>Events\<close>

text \<open>
  The script runs on one thread: a handler runs to its next \<^verbatim>\<open>await\<close> or to its end
  before another event is taken. The events are a submission of the form, the settling
  of a submission request, a tick of an interval timer, the settling of a status request
  (with the clock's reading then) and an animation frame (with its time stamp). A
  request in flight and a pending frame are named by their position. The handlers are
  modelled for every state; that a browser delivers no submission from the page while
  the submit button is disabled is not built in, and the runs written out below submit
  only while the button is enabled.
\<close>

datatype event =
    Submit string string string
  | SubmitSettled nat fetch_result
  | Tick nat
  | StatusSettled nat fetch_result rat
  | Frame nat rat

text \<open>\<^verbatim>\<open>handleSubmit\<close> up to \<^verbatim>\<open>await fetch('/api/download', ...)\<close>.\<close>

definition handleSubmit :: "string \<Rightarrow> string \<Rightarrow> string \<Rightarrow> downloader \<Rightarrow> downloader" where
  "handleSubmit u formatType q s =
     (if \<not> isValidYouTubeUrl u then showError ''Please enter a valid YouTube URL'' s
      else
        (let s1 = setLoadingState True (resetUI s)
         in s1\<lparr>submit_fetches := submit_fetches s1 @
                  [\<lparr>url = u, format_type = formatType, quality = q\<rparr>]\<rparr>))"

text \<open>The \<^verbatim>\<open>catch\<close> block of \<^verbatim>\<open>handleSubmit\<close>.\<close>

definition submit_failed :: "string \<Rightarrow> downloader \<Rightarrow> downloader" where
  "submit_failed msg s = setLoadingState False (showError msg s)"

text \<open>The rest of \<^verbatim>\<open>handleSubmit\<close>, once the request has settled.\<close>

definition submit_settled :: "fetch_result \<Rightarrow> downloader \<Rightarrow> downloader" where
  "submit_settled r s =
     (case r of
        NetworkError msg \<Rightarrow> submit_failed msg s
      | Response ok b \<Rightarrow>
          (case b of
             ParseError msg \<Rightarrow> submit_failed msg s
           | NullBody \<Rightarrow>
               submit_failed (null_property_error (if ok then ''task_id'' else ''message'')) s
           | Obj data \<Rightarrow>
               if \<not> ok then
                 submit_failed (str_or (message data) (str_or (error data) ''Download failed'')) s
               else
                 startPolling
                   (showProgress
                      (s\<lparr>currentTaskId :=
                           (case task_id data of None \<Rightarrow> Undefined | Some t \<Rightarrow> TaskId t)\<rparr>))))"

text \<open>The interval callback up to \<^verbatim>\<open>await fetch(`/api/status/${this.currentTaskId}`)\<close>.\<close>

definition poll_tick :: "downloader \<Rightarrow> downloader" where
  "poll_tick s =
     (if falsy_task (currentTaskId s) then stopPolling s
      else s\<lparr>status_fetches := status_fetches s @
                [''/api/status/'' @ task_text (currentTaskId s)]\<rparr>)"

text \<open>The \<^verbatim>\<open>catch\<close> block of the callback: \<^verbatim>\<open>console.error\<close> and nothing else.\<close>

definition poll_error :: "string \<Rightarrow> downloader \<Rightarrow> downloader" where
  "poll_error msg s = s\<lparr>console_errors := console_errors s @ [msg]\<rparr>"

definition task_expired :: "downloader \<Rightarrow> downloader" where
  "task_expired s = setLoadingState False (showError ''Download task expired'' (stopPolling s))"

text \<open>The rest of the callback, once the status request has settled.\<close>

definition status_settled :: "fetch_result \<Rightarrow> rat \<Rightarrow> downloader \<Rightarrow> downloader" where
  "status_settled r now s =
     (case r of
        NetworkError msg \<Rightarrow> poll_error msg s
      | Response ok b \<Rightarrow>
          (case b of
             ParseError msg \<Rightarrow> poll_error msg s
           | NullBody \<Rightarrow>
               if ok then poll_error (null_property_error ''progress'') s else task_expired s
           | Obj data \<Rightarrow>
               if ok then
                 (let s1 = updateProgress data now s
                  in if status data = Some ''completed'' then
                       setLoadingState False (showResult data (stopPolling s1))
                     else if status data = Some ''error'' then
                       setLoadingState False
                         (showError (str_or (error data) ''Download failed'') (stopPolling s1))
                     else s1)
               else task_expired s))"

text \<open>
  One event. A tick of a timer that was cleared, and the settling of a request or a frame
  that does not exist, are not events of the browser; they leave the state as it is.
\<close>

fun step :: "downloader \<Rightarrow> event \<Rightarrow> downloader" where
  "step s (Submit u formatType q) = handleSubmit u formatType q s"
| "step s (SubmitSettled i r) =
     (if i < length (submit_fetches s)
      then submit_settled r (s\<lparr>submit_fetches := drop_at i (submit_fetches s)\<rparr>)
      else s)"
| "step s (Tick h) = (if h \<in> set (timers s) then poll_tick s else s)"
| "step s (StatusSettled i r now) =
     (if i < length (status_fetches s)
      then status_settled r now (s\<lparr>status_fetches := drop_at i (status_fetches s)\<rparr>)
      else s)"
| "step s (Frame i t) = (if i < length (frames s) then animate i t s else s)"

definition run :: "downloader \<Rightarrow> event list \<Rightarrow> downloader" where
  "run s es = foldl step s es"

subsection \<open>Invariants and conditions on runs\<close>

text \<open>At most one interval timer is live, and it is the one \<open>pollInterval\<close> holds.\<close>

definition timers_ok :: "downloader \<Rightarrow> bool" where
  "timers_ok s \<longleftrightarrow> timers s = (case pollInterval s of None \<Rightarrow> [] | Some h \<Rightarrow> [h])"

text \<open>A body that \<^verbatim>\<open>response.json()\<close> could parse.\<close>

definition parsed :: "body \<Rightarrow> bool" where
  "parsed b = (case b of ParseError msg \<Rightarrow> False | _ \<Rightarrow> True)"

text \<open>A JSON object with none of the properties the script reads.\<close>

definition empty_object :: json_object where
  "empty_object =
     \<lparr>task_id = None, message = None, error = None, status = None, progress = None,
      speed = None, eta = None, filename = None\<rparr>"

subsection \<open>Concrete runs\<close>

text \<open>A submission that the backend accepts with task id \<open>t\<close>.\<close>

definition accepted :: "string \<Rightarrow> fetch_result" where
  "accepted t = Response True (Obj (empty_object\<lparr>task_id := Some t\<rparr>))"

text \<open>A status snapshot with a status token and a progress value.\<close>

definition snapshot :: "string \<Rightarrow> rat option \<Rightarrow> json_object" where
  "snapshot st p = empty_object\<lparr>status := Some st, progress := p\<rparr>"

text \<open>A task is submitted and accepted, and the timer ticks twice before any answer.\<close>

definition two_ticks :: "event list" where
  "two_ticks =
     [Submit ''https://youtu.be/abc123'' ''video'' ''best'', SubmitSettled 0 (accepted ''t1''),
      Tick 1, Tick 1]"

text \<open>A task is submitted and accepted, and the timer ticks once.\<close>

definition polling_t1 :: "event list" where
  "polling_t1 =
     [Submit ''https://youtu.be/abc123'' ''video'' ''best'', SubmitSettled 0 (accepted ''t1''),
      Tick 1]"

text \<open>
  Two status requests of task \<open>t1\<close> are in flight; the first is answered: \<open>t1\<close> is
  complete. The result is shown and the submit button is enabled again, while the second
  request is still in flight.
\<close>

definition first_done :: "event list" where
  "first_done =
     two_ticks @
     [StatusSettled 0
        (Response True (Obj ((snapshot ''completed'' (Some 100))\<lparr>filename := Some ''old.mp4''\<rparr>)))
        1600]"

text \<open>Then a second submission is made and accepted as task \<open>t2\<close>.\<close>

definition resubmitted :: "event list" where
  "resubmitted =
     first_done @
     [Submit ''https://youtu.be/xyz789'' ''audio'' ''best'', SubmitSettled 0 (accepted ''t2'')]"

text \<open>The status request of task \<open>t1\<close> is answered 404 with a body that is not JSON.\<close>

definition not_found_html :: "event list" where
  "not_found_html =
     polling_t1 @
     [StatusSettled 0 (Response False (ParseError ''Unexpected token < in JSON at position 0'')) 700]"

text \<open>
  After the second submission was accepted, the status request of task \<open>t1\<close> that was
  still in flight is answered as the first one was.
\<close>

definition late_answer :: "event list" where
  "late_answer =
     resubmitted @
     [StatusSettled 0
        (Response True (Obj ((snapshot ''completed'' (Some 100))\<lparr>filename := Some ''old.mp4''\<rparr>)))
        5000]"

text \<open>A submission is answered 500 with a body that is not JSON.\<close>

definition rejected_html :: "event list" where
  "rejected_html =
     [Submit ''https://youtu.be/abc123'' ''video'' ''best'',
      SubmitSettled 0 (Response False (ParseError ''Unexpected token < in JSON at position 0''))]"

text \<open>A submission is rejected with an empty \<^verbatim>\<open>message\<close> and a non-empty \<^verbatim>\<open>error\<close>.\<close>

definition rejected_empty_message :: "event list" where
  "rejected_empty_message =
     [Submit ''https://youtu.be/abc123'' ''video'' ''best'',
      SubmitSettled 0
        (Response False (Obj (empty_object\<lparr>message := Some [], error := Some ''Bad URL''\<rparr>)))]"

subsection \<open>Conditions on the percentages\<close>

text \<open>
  A property \<open>P\<close> of numbers holds of every percentage the downloader keeps or shows:
  \<open>lastPercent\<close>, the start and the target of every pending animation, the percentage
  text and the width of the bar.
\<close>

definition percent_inv :: "(rat \<Rightarrow> bool) \<Rightarrow> downloader \<Rightarrow> bool" where
  "percent_inv P s \<longleftrightarrow>
     P (lastPercent s) \<and>
     (\<forall>a \<in> set (frames s). P (startPercent a) \<and> P (targetPercent a)) \<and>
     P (of_int (progressPercent s)) \<and> P (progressFill s)"











section \<open>Properties of the formatting functions\<close>

lemma floor_rat_numeral_div [simp]:
  "\<lfloor>numeral a / numeral b :: rat\<rfloor> = numeral a div numeral b"
  by (metis floor_divide_of_int_eq of_int_numeral)

lemma ceiling_rat_numeral_div [simp]:
  "\<lceil>numeral a / numeral b :: rat\<rceil> = - (- numeral a div numeral b)"
  by (metis ceiling_def floor_divide_of_int_eq of_int_numeral of_int_minus minus_divide_left)

lemma floor_rat_neg_numeral_div [simp]:
  "\<lfloor>- (numeral a / numeral b) :: rat\<rfloor> = - numeral a div numeral b"
  by (metis floor_divide_of_int_eq of_int_numeral of_int_minus minus_divide_left)

lemmas render =
  toFixed1_def show_nat.simps show_int_def digit_char_def js_rem_def js_trunc_def Let_def

lemma speed_loop_stop:
  "\<not> (v \<ge> 1024 \<and> k < 3) \<Longrightarrow> speed_loop v k = (v, k)"
  by (subst speed_loop.simps) (auto simp add: units_def)

lemma speed_loop_step:
  "v \<ge> 1024 \<Longrightarrow> k < 3 \<Longrightarrow> speed_loop v k = speed_loop (v / 1024) (Suc k)"
  by (subst speed_loop.simps) (simp add: units_def)

lemma formatSpeed_bytes:
  assumes "b \<noteq> 0" "b < 1024"
  shows "formatSpeed (Some b) = toFixed1 b @ '' B/s''"
  using assms by (simp add: formatSpeed_def speed_loop_stop units_def)

lemma formatSpeed_kilo:
  assumes "1024 \<le> b" "b < 1024 * 1024"
  shows "formatSpeed (Some b) = toFixed1 (b / 1024) @ '' KB/s''"
proof -
  have "speed_loop b 0 = speed_loop (b / 1024) (Suc 0)"
    using assms by (simp add: speed_loop_step)
  also have "\<dots> = (b / 1024, Suc 0)"
    using assms by (simp add: speed_loop_stop)
  finally show ?thesis
    using assms by (simp add: formatSpeed_def units_def)
qed

lemma formatSpeed_mega:
  assumes "1024 * 1024 \<le> b" "b < 1024 * 1024 * 1024"
  shows "formatSpeed (Some b) = toFixed1 (b / 1024 / 1024) @ '' MB/s''"
proof -
  have "speed_loop b 0 = speed_loop (b / 1024) (Suc 0)"
    using assms by (simp add: speed_loop_step)
  also have "\<dots> = speed_loop (b / 1024 / 1024) (Suc (Suc 0))"
    using assms by (simp add: speed_loop_step)
  also have "\<dots> = (b / 1024 / 1024, Suc (Suc 0))"
    using assms by (simp add: speed_loop_stop)
  finally show ?thesis
    using assms by (simp add: formatSpeed_def units_def)
qed

lemma formatSpeed_giga:
  assumes "1024 * 1024 * 1024 \<le> b"
  shows "formatSpeed (Some b) = toFixed1 (b / 1024 / 1024 / 1024) @ '' GB/s''"
proof -
  have "speed_loop b 0 = speed_loop (b / 1024) (Suc 0)"
    using assms by (simp add: speed_loop_step)
  also have "\<dots> = speed_loop (b / 1024 / 1024) (Suc (Suc 0))"
    using assms by (simp add: speed_loop_step)
  also have "\<dots> = speed_loop (b / 1024 / 1024 / 1024) (Suc (Suc (Suc 0)))"
    using assms by (simp add: speed_loop_step)
  also have "\<dots> = (b / 1024 / 1024 / 1024, Suc (Suc (Suc 0)))"
    by (simp add: speed_loop_stop)
  finally show ?thesis
    using assms by (simp add: formatSpeed_def units_def)
qed

lemma formatSpeed_1536: "formatSpeed (Some 1536) = ''1.5 KB/s''"
  by (simp add: formatSpeed_def speed_loop.simps units_def render)

lemma formatTime_125: "formatTime (Some 125) = ''2m 5s''"
  by (simp add: formatTime_def render)

lemma formatTime_3700: "formatTime (Some 3700) = ''1h 1m''"
  by (simp add: formatTime_def render)

lemma formatTime_seconds:
  "0 < s \<Longrightarrow> s < 60 \<Longrightarrow> formatTime (Some s) = show_int \<lceil>s\<rceil> @ ''s''"
  by (simp add: formatTime_def)

lemma formatTime_minutes:
  "60 \<le> s \<Longrightarrow> s < 3600 \<Longrightarrow>
   formatTime (Some s) = show_int \<lfloor>s / 60\<rfloor> @ ''m '' @ show_int \<lceil>js_rem s 60\<rceil> @ ''s''"
  by (simp add: formatTime_def)

lemma formatTime_hours:
  "3600 \<le> s \<Longrightarrow>
   formatTime (Some s) = show_int \<lfloor>s / 3600\<rfloor> @ ''h '' @ show_int \<lfloor>js_rem s 3600 / 60\<rfloor> @ ''m''"
  by (simp add: formatTime_def)

text \<open>
  Claim C9. The reference values of the formatting functions:
  \<^verbatim>\<open>formatSpeed(1536)\<close> is \<^verbatim>\<open>"1.5 KB/s"\<close>, \<^verbatim>\<open>formatTime(125)\<close> is \<^verbatim>\<open>"2m 5s"\<close> and
  \<^verbatim>\<open>formatTime(3700)\<close> is \<^verbatim>\<open>"1h 1m"\<close>. In general a non-zero speed is divided by 1024
  while it is at least 1024 and a larger unit remains (B/s, KB/s, MB/s, GB/s) and is
  rendered to one decimal place; positive seconds below 60 are rendered as \<open>Ns\<close> (rounded
  up), below 3600 as \<open>Mm Ss\<close>, and otherwise as \<open>Hh Mm\<close>.
\<close>

theorem formatting_reference_values:
  "formatSpeed (Some 1536) = ''1.5 KB/s'' \<and>
   formatTime (Some 125) = ''2m 5s'' \<and>
   formatTime (Some 3700) = ''1h 1m'' \<and>
   (\<forall>b. b \<noteq> 0 \<and> b < 1024 \<longrightarrow> formatSpeed (Some b) = toFixed1 b @ '' B/s'') \<and>
   (\<forall>b. 1024 \<le> b \<and> b < 1024 * 1024 \<longrightarrow>
        formatSpeed (Some b) = toFixed1 (b / 1024) @ '' KB/s'') \<and>
   (\<forall>b. 1024 * 1024 \<le> b \<and> b < 1024 * 1024 * 1024 \<longrightarrow>
        formatSpeed (Some b) = toFixed1 (b / 1024 / 1024) @ '' MB/s'') \<and>
   (\<forall>b. 1024 * 1024 * 1024 \<le> b \<longrightarrow>
        formatSpeed (Some b) = toFixed1 (b / 1024 / 1024 / 1024) @ '' GB/s'') \<and>
   (\<forall>s. 0 < s \<and> s < 60 \<longrightarrow> formatTime (Some s) = show_int \<lceil>s\<rceil> @ ''s'') \<and>
   (\<forall>s. 60 \<le> s \<and> s < 3600 \<longrightarrow>
        formatTime (Some s) =
          show_int \<lfloor>s / 60\<rfloor> @ ''m '' @ show_int \<lceil>js_rem s 60\<rceil> @ ''s'') \<and>
   (\<forall>s. 3600 \<le> s \<longrightarrow>
        formatTime (Some s) =
          show_int \<lfloor>s / 3600\<rfloor> @ ''h '' @ show_int \<lfloor>js_rem s 3600 / 60\<rfloor> @ ''m'')"
proof (intro conjI allI impI)
  show "formatSpeed (Some 1536) = ''1.5 KB/s''" by (rule formatSpeed_1536)
  show "formatTime (Some 125) = ''2m 5s''" by (rule formatTime_125)
  show "formatTime (Some 3700) = ''1h 1m''" by (rule formatTime_3700)
qed (erule conjE, erule (1) formatSpeed_bytes formatSpeed_kilo formatSpeed_mega
      formatTime_seconds formatTime_minutes
    | erule formatSpeed_giga formatTime_hours)+

theorem formatting_reference_values_witness:
  "formatSpeed (Some 1048576) = ''1.0 MB/s'' \<and>
   formatSpeed (Some 512) = ''512.0 B/s'' \<and>
   formatTime (Some 30) = ''30s'' \<and>
   formatTime (Some (119 / 2)) = ''60s'' \<and>
   formatTime (Some 3599) = ''59m 59s'' \<and>
   formatTime (Some 7200) = ''2h 0m''"
proof -
  note r = formatting_reference_values
  from r have bytes: "\<forall>b. b \<noteq> 0 \<and> b < 1024 \<longrightarrow> formatSpeed (Some b) = toFixed1 b @ '' B/s''"
    by (elim conjE)
  from r have mega: "\<forall>b. 1024 * 1024 \<le> b \<and> b < 1024 * 1024 * 1024 \<longrightarrow>
        formatSpeed (Some b) = toFixed1 (b / 1024 / 1024) @ '' MB/s''"
    by (elim conjE)
  from r have secs: "\<forall>s. 0 < s \<and> s < 60 \<longrightarrow> formatTime (Some s) = show_int \<lceil>s\<rceil> @ ''s''"
    by (elim conjE)
  from r have mins: "\<forall>s. 60 \<le> s \<and> s < 3600 \<longrightarrow>
        formatTime (Some s) =
          show_int \<lfloor>s / 60\<rfloor> @ ''m '' @ show_int \<lceil>js_rem s 60\<rceil> @ ''s''"
    by (elim conjE)
  from r have hours: "\<forall>s. 3600 \<le> s \<longrightarrow>
        formatTime (Some s) =
          show_int \<lfloor>s / 3600\<rfloor> @ ''h '' @ show_int \<lfloor>js_rem s 3600 / 60\<rfloor> @ ''m''"
    by (elim conjE)
  have a: "toFixed1 (1048576 / 1024 / 1024) = ''1.0''" by (simp add: render)
  have b: "toFixed1 512 = ''512.0''" by (simp add: render)
  have c: "show_int \<lceil>30 :: rat\<rceil> = ''30''" by (simp add: render)
  have d: "show_int \<lceil>119 / 2 :: rat\<rceil> = ''60''" by (simp add: render)
  have e: "show_int \<lfloor>3599 / 60 :: rat\<rfloor> = ''59''" "show_int \<lceil>js_rem 3599 60\<rceil> = ''59''"
    by (simp_all add: render)
  have f: "show_int \<lfloor>7200 / 3600 :: rat\<rfloor> = ''2''" "show_int \<lfloor>js_rem 7200 3600 / 60\<rfloor> = ''0''"
    by (simp_all add: render)
  have "formatSpeed (Some 1048576) = ''1.0 MB/s''"
    using mega [rule_format, of 1048576] a by simp
  moreover have "formatSpeed (Some 512) = ''512.0 B/s''"
    using bytes [rule_format, of 512] b by simp
  moreover have "formatTime (Some 30) = ''30s''"
    using secs [rule_format, of 30] c by simp
  moreover have "formatTime (Some (119 / 2)) = ''60s''"
    using secs [rule_format, of "119 / 2"] d by simp
  moreover have "formatTime (Some 3599) = ''59m 59s''"
    using mins [rule_format, of 3599] e by simp
  moreover have "formatTime (Some 7200) = ''2h 0m''"
    using hours [rule_format, of 7200] f by simp
  ultimately show ?thesis by (intro conjI)
qed

text \<open>
  Claim C10. For seconds that are zero, negative or absent, \<^verbatim>\<open>formatTime\<close> returns
  \<^verbatim>\<open>"0s"\<close>.
\<close>

theorem formatTime_falsy_or_negative:
  "formatTime None = ''0s'' \<and> (\<forall>s. s \<le> 0 \<longrightarrow> formatTime (Some s) = ''0s'')"
  by (auto simp: formatTime_def)

theorem formatTime_falsy_or_negative_witness:
  "formatTime (Some 0) = ''0s'' \<and> formatTime (Some (- 5)) = ''0s'' \<and>
   formatTime (Some (- 1 / 2)) = ''0s''"
  using formatTime_falsy_or_negative by simp

section \<open>Properties of the validator\<close>

lemma strip_prefix_iff: "strip_prefix l s = Some r \<longleftrightarrow> s = l @ r"
  by (induction l s rule: strip_prefix.induct) auto

lemma strip_prefix_None: "strip_prefix l s = None \<longleftrightarrow> (\<forall>r. s \<noteq> l @ r)"
  by (metis strip_prefix_iff option.exhaust option.distinct(1))

lemma set_plus_rests:
  "set (plus_rests cls s) = {r. \<exists>m. m \<noteq> [] \<and> (\<forall>x \<in> set m. cls x) \<and> s = m @ r}"
proof (induction s)
  case Nil
  then show ?case by simp
next
  case (Cons x s)
  show ?case
  proof (cases "cls x")
    case False
    then show ?thesis
      by (auto simp: Cons_eq_append_conv)
  next
    case True
    show ?thesis
    proof (rule set_eqI)
      fix r
      show "r \<in> set (plus_rests cls (x # s)) \<longleftrightarrow>
            r \<in> {r. \<exists>m. m \<noteq> [] \<and> (\<forall>x \<in> set m. cls x) \<and> x # s = m @ r}"
      proof
        assume "r \<in> set (plus_rests cls (x # s))"
        with True have "r = s \<or> r \<in> set (plus_rests cls s)" by auto
        then show "r \<in> {r. \<exists>m. m \<noteq> [] \<and> (\<forall>x \<in> set m. cls x) \<and> x # s = m @ r}"
        proof
          assume "r = s"
          then have "[x] \<noteq> [] \<and> (\<forall>y \<in> set [x]. cls y) \<and> x # s = [x] @ r"
            using True by simp
          then show ?thesis by blast
        next
          assume "r \<in> set (plus_rests cls s)"
          then obtain m where m: "m \<noteq> []" "\<forall>y \<in> set m. cls y" "s = m @ r"
            using Cons.IH by auto
          then have "x # m \<noteq> [] \<and> (\<forall>y \<in> set (x # m). cls y) \<and> x # s = (x # m) @ r"
            using True by simp
          then show ?thesis by blast
        qed
      next
        assume "r \<in> {r. \<exists>m. m \<noteq> [] \<and> (\<forall>x \<in> set m. cls x) \<and> x # s = m @ r}"
        then obtain m where m: "m \<noteq> []" "\<forall>y \<in> set m. cls y" "x # s = m @ r" by auto
        then obtain m' where m': "m = x # m'" "s = m' @ r"
          by (cases m) auto
        show "r \<in> set (plus_rests cls (x # s))"
        proof (cases "m' = []")
          case True
          with m' \<open>cls x\<close> show ?thesis by simp
        next
          case False
          with m m' have "r \<in> set (plus_rests cls s)"
            using Cons.IH by auto
          with \<open>cls x\<close> show ?thesis by simp
        qed
      qed
    qed
  qed
qed

lemma set_item_rests: "set (item_rests i s) = {r. \<exists>m \<in> item_lang i. s = m @ r}"
proof (cases i)
  case (Lit l)
  show ?thesis
  proof (cases "strip_prefix l s")
    case None
    then have "\<forall>r. s \<noteq> l @ r" by (simp add: strip_prefix_None)
    with Lit None show ?thesis by auto
  next
    case (Some r)
    then have "s = l @ r" by (simp add: strip_prefix_iff)
    with Lit Some show ?thesis by auto
  qed
next
  case (Opt l)
  show ?thesis
  proof (cases "strip_prefix l s")
    case None
    then have "\<forall>r. s \<noteq> l @ r" by (simp add: strip_prefix_None)
    with Opt None show ?thesis by auto
  next
    case (Some r)
    then have "s = l @ r" by (simp add: strip_prefix_iff)
    with Opt Some show ?thesis by auto
  qed
next
  case (Plus1 cls)
  then show ?thesis
    by (auto simp: set_plus_rests)
qed

lemma set_seq_rests: "set (seq_rests p s) = {r. \<exists>m \<in> seq_lang p. s = m @ r}"
proof (induction p arbitrary: s)
  case Nil
  then show ?case by auto
next
  case (Cons i p)
  show ?case
  proof (rule set_eqI)
    fix r
    have "r \<in> set (seq_rests (i # p) s) \<longleftrightarrow>
          (\<exists>t \<in> set (item_rests i s). r \<in> set (seq_rests p t))"
      by auto
    also have "\<dots> \<longleftrightarrow> (\<exists>a \<in> item_lang i. \<exists>b \<in> seq_lang p. s = a @ b @ r)"
      unfolding set_item_rests Cons.IH by blast
    also have "\<dots> \<longleftrightarrow> (\<exists>m \<in> seq_lang (i # p). s = m @ r)"
    proof
      assume "\<exists>a \<in> item_lang i. \<exists>b \<in> seq_lang p. s = a @ b @ r"
      then obtain a b where "a \<in> item_lang i" "b \<in> seq_lang p" "s = (a @ b) @ r"
        by auto
      then show "\<exists>m \<in> seq_lang (i # p). s = m @ r"
        by (intro bexI [of _ "a @ b"]) (auto simp del: item_lang.simps)
    next
      assume "\<exists>m \<in> seq_lang (i # p). s = m @ r"
      then obtain a b where "a \<in> item_lang i" "b \<in> seq_lang p" "s = (a @ b) @ r"
        by (auto simp del: item_lang.simps)
      then show "\<exists>a \<in> item_lang i. \<exists>b \<in> seq_lang p. s = a @ b @ r"
        by auto
    qed
    finally show "r \<in> set (seq_rests (i # p) s) \<longleftrightarrow>
                  r \<in> {r. \<exists>m \<in> seq_lang (i # p). s = m @ r}"
      by simp
  qed
qed

lemma regex_test_iff: "regex_test p s \<longleftrightarrow> (\<exists>m r. m \<in> seq_lang p \<and> s = m @ r)"
proof -
  have "regex_test p s \<longleftrightarrow> set (seq_rests p s) \<noteq> {}"
    by (simp add: regex_test_def)
  also have "\<dots> \<longleftrightarrow> (\<exists>m r. m \<in> seq_lang p \<and> s = m @ r)"
    unfolding set_seq_rests by blast
  finally show ?thesis .
qed

lemma seq_lang_ConsI: "a \<in> item_lang i \<Longrightarrow> b \<in> seq_lang p \<Longrightarrow> a @ b \<in> seq_lang (i # p)"
  by (auto simp del: item_lang.simps)

lemma seq_lang_lastI: "a \<in> item_lang i \<Longrightarrow> a \<in> seq_lang [i]"
  using seq_lang_ConsI [of a i "[]" "[]"] by simp

lemma is_identifier_iff: "is_identifier w \<longleftrightarrow> w \<in> item_lang (Plus1 word_or_hyphen)"
  by (simp add: is_identifier_def word_or_hyphen_def)

lemma host_lang:
  "m \<in> seq_lang [Lit ''http'', Opt ''s'', Lit ''://'', Opt ''www.'', Lit path, Plus1 word_or_hyphen]
   \<longleftrightarrow> (\<exists>scheme www ident.
        scheme \<in> {''http'', ''https''} \<and> www \<in> {'''', ''www.''} \<and> is_identifier ident \<and>
        m = scheme @ ''://'' @ www @ path @ ident)"
  (is "?l \<longleftrightarrow> ?r")
proof
  assume ?l
  then obtain x y w where
    "x \<in> {[], ''s''}" "y \<in> {[], ''www.''}" "w \<in> item_lang (Plus1 word_or_hyphen)"
    "m = ''http'' @ x @ ''://'' @ y @ path @ w"
    by (auto simp del: item_lang.simps(3))
  then have "''http'' @ x \<in> {''http'', ''https''} \<and> y \<in> {'''', ''www.''} \<and> is_identifier w \<and>
     m = (''http'' @ x) @ ''://'' @ y @ path @ w"
    by (auto simp: is_identifier_iff)
  then show ?r by blast
next
  assume ?r
  then obtain scheme www ident where h:
    "scheme \<in> {''http'', ''https''}" "www \<in> {'''', ''www.''}" "is_identifier ident"
    "m = scheme @ ''://'' @ www @ path @ ident"
    by blast
  from h(1) obtain x where x: "x \<in> {[], ''s''}" "scheme = ''http'' @ x"
    by auto
  have "''http'' @ x @ ''://'' @ www @ path @ ident
        \<in> seq_lang [Lit ''http'', Opt ''s'', Lit ''://'', Opt ''www.'', Lit path, Plus1 word_or_hyphen]"
    using x(1) h(2,3) unfolding is_identifier_iff
    by (intro seq_lang_ConsI seq_lang_lastI) simp_all
  moreover have "m = ''http'' @ x @ ''://'' @ www @ path @ ident"
    using h(4) x(2) by simp
  ultimately show ?l by simp
qed

lemma short_lang:
  "m \<in> seq_lang [Lit ''http'', Opt ''s'', Lit ''://youtu.be/'', Plus1 word_or_hyphen]
   \<longleftrightarrow> short_link m"
  (is "?l \<longleftrightarrow> ?r")
proof
  assume ?l
  then obtain x w where
    "x \<in> {[], ''s''}" "w \<in> item_lang (Plus1 word_or_hyphen)"
    "m = ''http'' @ x @ ''://youtu.be/'' @ w"
    by (auto simp del: item_lang.simps(3))
  then have "''http'' @ x \<in> {''http'', ''https''} \<and> is_identifier w \<and>
     m = (''http'' @ x) @ ''://youtu.be/'' @ w"
    by (auto simp: is_identifier_iff)
  then show ?r unfolding short_link_def by blast
next
  assume ?r
  then obtain scheme ident where h:
    "scheme \<in> {''http'', ''https''}" "is_identifier ident"
    "m = scheme @ ''://youtu.be/'' @ ident"
    unfolding short_link_def by blast
  from h(1) obtain x where x: "x \<in> {[], ''s''}" "scheme = ''http'' @ x"
    by auto
  have "''http'' @ x @ ''://youtu.be/'' @ ident
        \<in> seq_lang [Lit ''http'', Opt ''s'', Lit ''://youtu.be/'', Plus1 word_or_hyphen]"
    using x(1) h(2) unfolding is_identifier_iff
    by (intro seq_lang_ConsI seq_lang_lastI) simp_all
  moreover have "m = ''http'' @ x @ ''://youtu.be/'' @ ident"
    using h(3) x(2) by simp
  ultimately show ?l by simp
qed

text \<open>A locator is a string that one of the four patterns matches in full.\<close>

lemma locator_iff_lang: "isAcceptableLocator m \<longleftrightarrow> (\<exists>p \<in> set patterns. m \<in> seq_lang p)"
  unfolding patterns_def isAcceptableLocator_def watch_page_link_def shorts_link_def
    embed_link_def set_simps bex_simps insert_iff empty_iff host_lang short_lang
  by blast

lemma patterns_iff:
  "list_ex (\<lambda>pattern. regex_test pattern u) patterns \<longleftrightarrow> begins_with_locator u"
proof -
  have "list_ex (\<lambda>pattern. regex_test pattern u) patterns \<longleftrightarrow>
        (\<exists>p \<in> set patterns. \<exists>m r. m \<in> seq_lang p \<and> u = m @ r)"
    by (simp add: list_ex_iff regex_test_iff)
  also have "\<dots> \<longleftrightarrow> (\<exists>m r. (\<exists>p \<in> set patterns. m \<in> seq_lang p) \<and> u = m @ r)"
    by blast
  also have "\<dots> \<longleftrightarrow> begins_with_locator u"
    by (simp add: begins_with_locator_def locator_iff_lang)
  finally show ?thesis .
qed

text \<open>Whether a string is a locator is decided by the matcher: some match leaves nothing.\<close>

lemma locator_full_match:
  "isAcceptableLocator u \<longleftrightarrow> list_ex (\<lambda>pattern. [] \<in> set (seq_rests pattern u)) patterns"
  by (simp add: locator_iff_lang list_ex_iff set_seq_rests)

lemma dropWhile_twice_empty:
  "dropWhile P (rev (dropWhile P s)) = [] \<longleftrightarrow> (\<forall>c \<in> set s. P c)"
proof (cases "dropWhile P s = []")
  case True
  then have "\<forall>c \<in> set s. P c" by simp
  moreover from True have "dropWhile P (rev (dropWhile P s)) = []"
    by (simp only: rev.simps dropWhile.simps)
  ultimately show ?thesis by blast
next
  case False
  then have "\<not> P (hd (dropWhile P s))"
    by (rule hd_dropWhile)
  moreover have "hd (dropWhile P s) \<in> set (rev (dropWhile P s))"
    using False by simp
  ultimately have "dropWhile P (rev (dropWhile P s)) \<noteq> []"
    unfolding dropWhile_eq_Nil_conv by blast
  moreover have "\<not> (\<forall>c \<in> set s. P c)"
    using False by simp
  ultimately show ?thesis by blast
qed

lemma js_trim_empty_iff: "js_trim s = [] \<longleftrightarrow> (\<forall>c \<in> set s. js_space c)"
  unfolding js_trim_def rev_is_Nil_conv by (rule dropWhile_twice_empty)

lemma locator_scheme:
  assumes "isAcceptableLocator p"
  obtains scheme tail where "scheme \<in> {''http'', ''https''}" and "p = scheme @ tail"
proof -
  from assms consider "watch_page_link p" | "short_link p" | "shorts_link p" | "embed_link p"
    unfolding isAcceptableLocator_def by blast
  then show thesis
  proof cases
    case 1
    then obtain scheme www ident where "scheme \<in> {''http'', ''https''}"
      "p = scheme @ ''://'' @ www @ ''youtube.com/watch?v='' @ ident"
      unfolding watch_page_link_def by blast
    then show thesis by (rule that)
  next
    case 2
    then obtain scheme ident where "scheme \<in> {''http'', ''https''}"
      "p = scheme @ ''://youtu.be/'' @ ident"
      unfolding short_link_def by blast
    then show thesis by (rule that)
  next
    case 3
    then obtain scheme www ident where "scheme \<in> {''http'', ''https''}"
      "p = scheme @ ''://'' @ www @ ''youtube.com/shorts/'' @ ident"
      unfolding shorts_link_def by blast
    then show thesis by (rule that)
  next
    case 4
    then obtain scheme www ident where "scheme \<in> {''http'', ''https''}"
      "p = scheme @ ''://'' @ www @ ''youtube.com/embed/'' @ ident"
      unfolding embed_link_def by blast
    then show thesis by (rule that)
  qed
qed

lemma locator_starts_with_h:
  assumes "begins_with_locator u"
  shows "CHR ''h'' \<in> set u"
proof -
  from assms obtain p rest where p: "isAcceptableLocator p" "u = p @ rest"
    unfolding begins_with_locator_def by blast
  from p(1) obtain scheme tail where "scheme \<in> {''http'', ''https''}" "p = scheme @ tail"
    by (rule locator_scheme)
  with p(2) show ?thesis by auto
qed

lemma blank_no_locator:
  assumes "\<forall>c \<in> set u. js_space c"
  shows "\<not> begins_with_locator u"
proof
  assume "begins_with_locator u"
  then have "CHR ''h'' \<in> set u" by (rule locator_starts_with_h)
  with assms have "js_space CHR ''h''" by blast
  then show False by (simp add: js_space_def)
qed

text \<open>
  Claim C5, as the code has it. \<^verbatim>\<open>isValidYouTubeUrl\<close> returns true exactly when the input
  begins with one of the four locator shapes (watch-page link, short link, shorts link,
  embed link) with a non-empty identifier of word characters and hyphens; the text after
  the identifier is not examined. So every locator is accepted, and so is every string
  that continues one. For the empty string and for a string of white space only it
  returns false. It is a function of the string alone.
\<close>

theorem isValidYouTubeUrl_begins_with_locator:
  "(isValidYouTubeUrl u \<longleftrightarrow> begins_with_locator u) \<and>
   (isAcceptableLocator u \<longrightarrow> isValidYouTubeUrl (u @ rest)) \<and>
   (u = [] \<or> (\<forall>c \<in> set u. js_space c) \<longrightarrow> \<not> isValidYouTubeUrl u)"
proof -
  have blank: "\<not> isValidYouTubeUrl v" "\<not> begins_with_locator v" if "\<forall>c \<in> set v. js_space c" for v
    using that blank_no_locator by (simp_all add: isValidYouTubeUrl_def js_trim_empty_iff)
  have iff: "isValidYouTubeUrl v \<longleftrightarrow> begins_with_locator v" for v
  proof (cases "\<forall>c \<in> set v. js_space c")
    case True
    then show ?thesis using blank by blast
  next
    case False
    then have "v \<noteq> []" "js_trim v \<noteq> []"
      by (auto simp: js_trim_empty_iff)
    then show ?thesis
      by (simp add: isValidYouTubeUrl_def patterns_iff)
  qed
  have "isValidYouTubeUrl (u @ rest)" if "isAcceptableLocator u"
  proof -
    from that have "begins_with_locator (u @ rest)"
      unfolding begins_with_locator_def by blast
    then show ?thesis by (simp add: iff)
  qed
  moreover have "u = [] \<or> (\<forall>c \<in> set u. js_space c) \<longrightarrow> \<not> isValidYouTubeUrl u"
    using blank by auto
  ultimately show ?thesis using iff by blast
qed

lemmas regex_eval = isValidYouTubeUrl_def js_trim_def js_space_def patterns_def regex_test_def
  word_or_hyphen_def word_char_def

lemma isValidYouTubeUrl_examples:
  "isValidYouTubeUrl ''https://www.youtube.com/watch?v=a-b_c&t=1''"
  "isValidYouTubeUrl ''http://youtube.com/embed/x''"
  "\<not> isValidYouTubeUrl ''https://youtube.com/shorts/''"
  "\<not> isValidYouTubeUrl '' https://youtu.be/abc123''"
  by (simp_all add: regex_eval)

theorem isValidYouTubeUrl_begins_with_locator_witness:
  "isAcceptableLocator ''https://youtu.be/abc123'' \<and>
   isValidYouTubeUrl ''https://youtu.be/abc123?t=10'' \<and>
   begins_with_locator ''https://youtu.be/abc123?t=10'' \<and>
   \<not> isValidYouTubeUrl ''   '' \<and>
   \<not> begins_with_locator ''https://youtube.com/shorts/''"
proof -
  note r = isValidYouTubeUrl_begins_with_locator
  have a: "isAcceptableLocator ''https://youtu.be/abc123''"
    by (simp add: locator_full_match patterns_def word_or_hyphen_def word_char_def)
  have b: "\<forall>c \<in> set ''   ''. js_space c"
    by (simp add: js_space_def)
  have c: "\<not> isValidYouTubeUrl ''https://youtube.com/shorts/''"
    by (simp add: regex_eval)
  from r [of "''https://youtu.be/abc123''" "''?t=10''"] a
  have 1: "isValidYouTubeUrl ''https://youtu.be/abc123?t=10''"
    by simp
  with r [of "''https://youtu.be/abc123?t=10''"]
  have 2: "begins_with_locator ''https://youtu.be/abc123?t=10''"
    by blast
  from r [of "''   ''"] b have 3: "\<not> isValidYouTubeUrl ''   ''"
    by blast
  from r [of "''https://youtube.com/shorts/''"] c
  have 4: "\<not> begins_with_locator ''https://youtube.com/shorts/''"
    by blast
  from a 1 2 3 4 show ?thesis by blast
qed

text \<open>
  Claim C5 as stated fails: the identifier need not be trailing. The patterns are
  anchored at the start only, so a watch-page link followed by a further query parameter
  is accepted, and so is a short link followed by arbitrary text; neither string is one
  of the four shapes.
\<close>

theorem text_after_identifier_accepted:
  "isValidYouTubeUrl ''https://www.youtube.com/watch?v=abc123&t=10'' \<and>
   \<not> isAcceptableLocator ''https://www.youtube.com/watch?v=abc123&t=10'' \<and>
   isValidYouTubeUrl ''https://youtu.be/a b <script>'' \<and>
   \<not> isAcceptableLocator ''https://youtu.be/a b <script>''"
proof -
  have "isValidYouTubeUrl ''https://www.youtube.com/watch?v=abc123&t=10''"
    and "isValidYouTubeUrl ''https://youtu.be/a b <script>''"
    by (simp_all add: regex_eval)
  moreover have "\<not> isAcceptableLocator ''https://www.youtube.com/watch?v=abc123&t=10''"
    and "\<not> isAcceptableLocator ''https://youtu.be/a b <script>''"
    by (simp_all add: locator_full_match patterns_def word_or_hyphen_def word_char_def)
  ultimately show ?thesis by blast
qed

section \<open>Properties of the controller\<close>

lemmas view_defs = hideAllContainers_def showError_def showProgress_def showResult_def
  setLoadingState_def

lemmas poll_defs = clearInterval_def stopPolling_def startPolling_def resetUI_def

subsection \<open>Timers\<close>

lemma timers_ok_new: "timers_ok new_downloader"
  by (simp add: timers_ok_def new_downloader_def)

lemma stopPolling_fields [simp]:
  "pollInterval (stopPolling s) = None"
  "lastPercent (stopPolling s) = lastPercent s"
  "currentTaskId (stopPolling s) = currentTaskId s"
  "status_fetches (stopPolling s) = status_fetches s"
  "submit_fetches (stopPolling s) = submit_fetches s"
  "frames (stopPolling s) = frames s"
  "progressPercent (stopPolling s) = progressPercent s"
  "progressFill (stopPolling s) = progressFill s"
  "console_errors (stopPolling s) = console_errors s"
  "progressStatus (stopPolling s) = progressStatus s"
  "progressInfo (stopPolling s) = progressInfo s"
  "progressContainer (stopPolling s) = progressContainer s"
  "errorContainer (stopPolling s) = errorContainer s"
  "resultContainer (stopPolling s) = resultContainer s"
  "errorMessage (stopPolling s) = errorMessage s"
  "submitBtn (stopPolling s) = submitBtn s"
  by (simp_all add: poll_defs split: option.splits)

lemma stopPolling_timers: "timers_ok s \<Longrightarrow> timers (stopPolling s) = []"
  by (simp add: timers_ok_def poll_defs split: option.splits)

lemma stopPolling_not_live: "pollInterval s = Some h \<Longrightarrow> h \<notin> set (timers (stopPolling s))"
  by (simp add: poll_defs)

lemma timers_ok_stopPolling: "timers_ok s \<Longrightarrow> timers_ok (stopPolling s)"
  by (simp add: timers_ok_def poll_defs split: option.splits)

lemma timers_ok_startPolling: "timers_ok s \<Longrightarrow> timers_ok (startPolling s)"
  by (simp add: timers_ok_def poll_defs Let_def split: option.splits)

lemma timers_ok_view [simp]:
  "timers_ok (hideAllContainers s) = timers_ok s"
  "timers_ok (showError msg s) = timers_ok s"
  "timers_ok (showProgress s) = timers_ok s"
  "timers_ok (showResult data s) = timers_ok s"
  "timers_ok (setLoadingState b s) = timers_ok s"
  by (simp_all add: timers_ok_def view_defs)

lemma timers_ok_updateProgress [simp]: "timers_ok (updateProgress data now s) = timers_ok s"
  by (simp add: timers_ok_def updateProgress_def animatePercentage_def Let_def)

lemma timers_ok_resetUI: "timers_ok s \<Longrightarrow> timers_ok (resetUI s)"
  by (simp add: timers_ok_def poll_defs hideAllContainers_def split: option.splits)

lemma timers_ok_handleSubmit: "timers_ok s \<Longrightarrow> timers_ok (handleSubmit u f q s)"
proof -
  assume ok: "timers_ok s"
  have "timers_ok ((setLoadingState True (resetUI s))\<lparr>submit_fetches := xs\<rparr>)" for xs
    using timers_ok_resetUI [OF ok] by (simp add: timers_ok_def setLoadingState_def)
  then show ?thesis
    using ok by (simp add: handleSubmit_def Let_def)
qed

lemma timers_ok_submit_settled: "timers_ok s \<Longrightarrow> timers_ok (submit_settled r s)"
proof -
  assume ok: "timers_ok s"
  have "timers_ok (startPolling (showProgress (s\<lparr>currentTaskId := t\<rparr>)))" for t
  proof -
    have "timers_ok (s\<lparr>currentTaskId := t\<rparr>)"
      using ok by (simp add: timers_ok_def)
    then show ?thesis
      by (simp add: timers_ok_startPolling)
  qed
  then show ?thesis
    using ok by (simp add: submit_settled_def submit_failed_def split: fetch_result.splits body.splits)
qed

lemma timers_ok_poll_tick: "timers_ok s \<Longrightarrow> timers_ok (poll_tick s)"
  by (simp add: poll_tick_def timers_ok_stopPolling) (simp add: timers_ok_def)

lemma timers_ok_status_settled: "timers_ok s \<Longrightarrow> timers_ok (status_settled r now s)"
proof -
  assume ok: "timers_ok s"
  have "timers_ok (poll_error msg s)" for msg
    using ok by (simp add: timers_ok_def poll_error_def)
  moreover have "timers_ok (task_expired s)"
    using ok by (simp add: task_expired_def timers_ok_stopPolling)
  moreover have "timers_ok (stopPolling (updateProgress data now s))" for data
    using ok by (simp add: timers_ok_stopPolling)
  ultimately show ?thesis
    using ok
    by (simp add: status_settled_def Let_def split: fetch_result.splits body.splits)
qed

lemma timers_ok_animate: "timers_ok s \<Longrightarrow> timers_ok (animate i t s)"
  by (simp add: timers_ok_def animate_def Let_def)

lemma timers_ok_step: "timers_ok s \<Longrightarrow> timers_ok (step s e)"
proof (cases e)
  case (Submit u f q)
  assume "timers_ok s"
  with Submit show ?thesis by (simp add: timers_ok_handleSubmit)
next
  case (SubmitSettled i r)
  assume "timers_ok s"
  then have "timers_ok (s\<lparr>submit_fetches := drop_at i (submit_fetches s)\<rparr>)"
    by (simp add: timers_ok_def)
  with SubmitSettled \<open>timers_ok s\<close> show ?thesis
    by (simp add: timers_ok_submit_settled)
next
  case (Tick h)
  assume "timers_ok s"
  with Tick show ?thesis by (simp add: timers_ok_poll_tick)
next
  case (StatusSettled i r now)
  assume "timers_ok s"
  then have "timers_ok (s\<lparr>status_fetches := drop_at i (status_fetches s)\<rparr>)"
    by (simp add: timers_ok_def)
  with StatusSettled \<open>timers_ok s\<close> show ?thesis
    by (simp add: timers_ok_status_settled)
next
  case (Frame i t)
  assume "timers_ok s"
  with Frame show ?thesis by (simp add: timers_ok_animate)
qed

lemma run_Nil [simp]: "run s [] = s"
  by (simp add: run_def)

lemma run_Cons [simp]: "run s (e # es) = run (step s e) es"
  by (simp add: run_def)

lemma run_append: "run s (es @ es') = run (run s es) es'"
  by (simp add: run_def)

lemma timers_ok_run: "timers_ok s \<Longrightarrow> timers_ok (run s es)"
  by (induction es arbitrary: s) (simp_all add: timers_ok_step)

text \<open>A tick does nothing once no timer is live.\<close>

lemma tick_without_timer: "timers s = [] \<Longrightarrow> step s (Tick h) = s"
  by simp

declare step.simps [simp del]

lemmas ctl_eval = run_def step.simps new_downloader_def handleSubmit_def submit_settled_def
  submit_failed_def poll_tick_def poll_error_def task_expired_def status_settled_def view_defs
  poll_defs updateProgress_def animatePercentage_def animate_def drop_at_def falsy_task_def
  task_text_def str_or_def num_or_zero_def empty_object_def accepted_def snapshot_def
  status_label_def info_line_def easeOut_def js_round_def Let_def regex_eval

subsection \<open>Poll ticks\<close>

lemma poll_tick_active:
  "\<not> falsy_task (currentTaskId s) \<Longrightarrow>
   poll_tick s =
     s\<lparr>status_fetches := status_fetches s @ [''/api/status/'' @ task_text (currentTaskId s)]\<rparr>"
  by (simp add: poll_tick_def)

lemma ticks_launch:
  "h \<in> set (timers s) \<Longrightarrow> \<not> falsy_task (currentTaskId s) \<Longrightarrow>
   run s (replicate n (Tick h)) =
     s\<lparr>status_fetches := status_fetches s @
          replicate n (''/api/status/'' @ task_text (currentTaskId s))\<rparr>"
proof (induction n arbitrary: s)
  case 0
  then show ?case by simp
next
  case (Suc n)
  let ?s1 = "s\<lparr>status_fetches := status_fetches s @
                [''/api/status/'' @ task_text (currentTaskId s)]\<rparr>"
  have "run s (replicate (Suc n) (Tick h)) = run ?s1 (replicate n (Tick h))"
    using Suc.prems by (simp add: step.simps poll_tick_active)
  also have "\<dots> = ?s1\<lparr>status_fetches := status_fetches ?s1 @
                replicate n (''/api/status/'' @ task_text (currentTaskId ?s1))\<rparr>"
    using Suc.prems by (intro Suc.IH) simp_all
  also have "\<dots> = s\<lparr>status_fetches := status_fetches s @
          replicate (Suc n) (''/api/status/'' @ task_text (currentTaskId s))\<rparr>"
    by (simp add: replicate_app_Cons_same)
  finally show ?case .
qed

text \<open>
  Claim C7, as the code has it. A tick of the live timer while a task is active launches
  one status request for that task, whether or not earlier requests have settled: the
  tick is never skipped, and after \<open>n\<close> ticks with no settling in between \<open>n\<close> more
  requests are in flight.
\<close>

theorem tick_always_launches_fetch:
  assumes "h \<in> set (timers s)" and "\<not> falsy_task (currentTaskId s)"
  shows "status_fetches (step s (Tick h)) =
           status_fetches s @ [''/api/status/'' @ task_text (currentTaskId s)] \<and>
         length (status_fetches (run s (replicate n (Tick h)))) =
           length (status_fetches s) + n"
  using assms by (simp add: step.simps poll_tick_active ticks_launch)

theorem tick_always_launches_fetch_witness:
  "status_fetches (run new_downloader two_ticks) = [''/api/status/t1'', ''/api/status/t1''] \<and>
   length (status_fetches (run (run new_downloader polling_t1) (replicate 3 (Tick 1)))) = 4"
proof -
  let ?s = "run new_downloader polling_t1"
  have s: "timers ?s = [1]" "currentTaskId ?s = TaskId ''t1''"
    "status_fetches ?s = [''/api/status/t1'']"
    by (simp_all add: polling_t1_def ctl_eval)
  have "run new_downloader two_ticks = step ?s (Tick 1)"
    by (simp add: two_ticks_def polling_t1_def run_def)
  then show ?thesis
    using tick_always_launches_fetch [of 1 ?s 3] s
    by (simp add: falsy_task_def task_text_def)
qed

text \<open>
  Claim C7 as stated fails: after two ticks with no answer in between, two status
  requests for the same task are in flight.
\<close>

theorem two_fetches_in_flight:
  "\<not> length (status_fetches (run new_downloader two_ticks)) \<le> 1"
  by (simp add: two_ticks_def ctl_eval)

subsection \<open>Settling of a status request\<close>

lemma status_settled_network_error:
  "status_settled (NetworkError msg) now s = s\<lparr>console_errors := console_errors s @ [msg]\<rparr>"
  by (simp add: status_settled_def poll_error_def)

lemma status_settled_completed:
  assumes "status data = Some ''completed''"
  shows "status_settled (Response True (Obj data)) now s =
           setLoadingState False (showResult data (stopPolling (updateProgress data now s)))"
  using assms by (simp add: status_settled_def)

lemma status_settled_not_ok:
  "parsed b \<Longrightarrow> status_settled (Response False b) now s = task_expired s"
  by (cases b) (simp_all add: status_settled_def parsed_def)

lemma task_expired_fields:
  "pollInterval (task_expired s) = None"
  "errorContainer (task_expired s)"
  "errorMessage (task_expired s) = ''Download task expired''"
  "\<not> progressContainer (task_expired s)"
  "\<not> resultContainer (task_expired s)"
  "\<not> submitBtn (task_expired s)"
  "status_fetches (task_expired s) = status_fetches s"
  "timers (task_expired s) = timers (stopPolling s)"
  by (simp_all add: task_expired_def view_defs)

lemma completed_outcome:
  assumes "status data = Some ''completed''" and "pollInterval s = Some h"
  shows "resultContainer (status_settled (Response True (Obj data)) now s)"
    and "\<not> progressContainer (status_settled (Response True (Obj data)) now s)"
    and "\<not> errorContainer (status_settled (Response True (Obj data)) now s)"
    and "pollInterval (status_settled (Response True (Obj data)) now s) = None"
    and "h \<notin> set (timers (status_settled (Response True (Obj data)) now s))"
    and "\<not> submitBtn (status_settled (Response True (Obj data)) now s)"
proof -
  let ?u = "updateProgress data now s"
  have eq: "status_settled (Response True (Obj data)) now s =
        setLoadingState False (showResult data (stopPolling ?u))"
    using assms(1) by (rule status_settled_completed)
  have "pollInterval ?u = Some h"
    using assms(2) by (simp add: updateProgress_def animatePercentage_def Let_def)
  then have "h \<notin> set (timers (stopPolling ?u))"
    by (rule stopPolling_not_live)
  then show "h \<notin> set (timers (status_settled (Response True (Obj data)) now s))"
    unfolding eq by (simp add: view_defs)
qed (simp_all add: status_settled_completed [OF assms(1)] view_defs)

text \<open>
  Claim C4. A status request that fails at the transport level is logged and changes
  nothing else: every element of the page, the active task and the timer are as before.
  The next tick of the timer launches a request as usual, and if that one answers with
  the status \<open>completed\<close> the result is shown and polling stops.
\<close>

theorem transport_failure_swallowed:
  assumes "i < length (status_fetches s)"
  shows "step s (StatusSettled i (NetworkError msg) now) =
           s\<lparr>status_fetches := drop_at i (status_fetches s),
             console_errors := console_errors s @ [msg]\<rparr> \<and>
         (pollInterval s = Some h \<and> h \<in> set (timers s) \<and> \<not> falsy_task (currentTaskId s) \<longrightarrow>
            (let s1 = step s (StatusSettled i (NetworkError msg) now);
                 s2 = step s1 (Tick h)
             in pollInterval s1 = Some h \<and> h \<in> set (timers s1) \<and>
                status_fetches s2 =
                  status_fetches s1 @ [''/api/status/'' @ task_text (currentTaskId s)] \<and>
                (\<forall>data now'. status data = Some ''completed'' \<longrightarrow>
                   (let s3 = step s2 (StatusSettled (length (status_fetches s1))
                                        (Response True (Obj data)) now')
                    in resultContainer s3 \<and> \<not> progressContainer s3 \<and> \<not> errorContainer s3 \<and>
                       pollInterval s3 = None \<and> h \<notin> set (timers s3) \<and> \<not> submitBtn s3))))"
proof -
  let ?s1 = "s\<lparr>status_fetches := drop_at i (status_fetches s),
               console_errors := console_errors s @ [msg]\<rparr>"
  let ?s2 = "?s1\<lparr>status_fetches := status_fetches ?s1 @
               [''/api/status/'' @ task_text (currentTaskId s)]\<rparr>"
  have s1: "step s (StatusSettled i (NetworkError msg) now) = ?s1"
    using assms by (simp add: step.simps status_settled_network_error)
  have tail: "pollInterval ?s1 = Some h \<and> h \<in> set (timers ?s1) \<and>
        status_fetches (step ?s1 (Tick h)) =
          status_fetches ?s1 @ [''/api/status/'' @ task_text (currentTaskId s)] \<and>
        (\<forall>data now'. status data = Some ''completed'' \<longrightarrow>
           (let s3 = step (step ?s1 (Tick h)) (StatusSettled (length (status_fetches ?s1))
                                (Response True (Obj data)) now')
            in resultContainer s3 \<and> \<not> progressContainer s3 \<and> \<not> errorContainer s3 \<and>
               pollInterval s3 = None \<and> h \<notin> set (timers s3) \<and> \<not> submitBtn s3))"
    if hh: "pollInterval s = Some h \<and> h \<in> set (timers s) \<and> \<not> falsy_task (currentTaskId s)"
  proof (intro conjI allI impI)
    from hh have h: "pollInterval s = Some h" "h \<in> set (timers s)"
      "\<not> falsy_task (currentTaskId s)"
      by blast+
    show "pollInterval ?s1 = Some h" "h \<in> set (timers ?s1)"
      using h by simp_all
    have s2: "step ?s1 (Tick h) = ?s2"
      using h by (simp add: step.simps poll_tick_active)
    show "status_fetches (step ?s1 (Tick h)) =
          status_fetches ?s1 @ [''/api/status/'' @ task_text (currentTaskId s)]"
      unfolding s2 by simp
    fix data :: json_object and now' :: rat
    assume c: "status data = Some ''completed''"
    let ?s2' = "?s2\<lparr>status_fetches := drop_at (length (status_fetches ?s1)) (status_fetches ?s2)\<rparr>"
    have s3: "step (step ?s1 (Tick h)) (StatusSettled (length (status_fetches ?s1))
                (Response True (Obj data)) now') =
              status_settled (Response True (Obj data)) now' ?s2'"
      unfolding s2 by (simp add: step.simps)
    have p: "pollInterval ?s2' = Some h"
      using h by simp
    show "let s3 = step (step ?s1 (Tick h)) (StatusSettled (length (status_fetches ?s1))
                                (Response True (Obj data)) now')
          in resultContainer s3 \<and> \<not> progressContainer s3 \<and> \<not> errorContainer s3 \<and>
             pollInterval s3 = None \<and> h \<notin> set (timers s3) \<and> \<not> submitBtn s3"
      unfolding s3 Let_def using completed_outcome [OF c p] by (intro conjI)
  qed
  show ?thesis
    unfolding s1
  proof (intro conjI impI)
    assume "pollInterval s = Some h \<and> h \<in> set (timers s) \<and> \<not> falsy_task (currentTaskId s)"
    then show "let s1 = ?s1; s2 = step s1 (Tick h)
      in pollInterval s1 = Some h \<and> h \<in> set (timers s1) \<and>
         status_fetches s2 =
           status_fetches s1 @ [''/api/status/'' @ task_text (currentTaskId s)] \<and>
         (\<forall>data now'. status data = Some ''completed'' \<longrightarrow>
            (let s3 = step s2 (StatusSettled (length (status_fetches s1))
                                 (Response True (Obj data)) now')
             in resultContainer s3 \<and> \<not> progressContainer s3 \<and> \<not> errorContainer s3 \<and>
                pollInterval s3 = None \<and> h \<notin> set (timers s3) \<and> \<not> submitBtn s3))"
      unfolding Let_def by (rule tail [unfolded Let_def])
  qed (rule refl)
qed

theorem transport_failure_swallowed_witness:
  "(let s = run new_downloader polling_t1;
        s1 = step s (StatusSettled 0 (NetworkError ''Failed to fetch'') 700);
        s2 = step s1 (Tick 1);
        s3 = step s2 (StatusSettled 0 (Response True (Obj (snapshot ''completed'' (Some 100)))) 1200)
    in s1 = s\<lparr>status_fetches := [], console_errors := [''Failed to fetch'']\<rparr> \<and>
       status_fetches s2 = [''/api/status/t1''] \<and>
       resultContainer s3 \<and> pollInterval s3 = None \<and> timers s3 = [] \<and> \<not> submitBtn s3)"
proof -
  let ?s = "run new_downloader polling_t1"
  let ?s1 = "step ?s (StatusSettled 0 (NetworkError ''Failed to fetch'') 700)"
  let ?s2 = "step ?s1 (Tick 1)"
  let ?s3 = "step ?s2 (StatusSettled 0 (Response True (Obj (snapshot ''completed'' (Some 100)))) 1200)"
  have s: "status_fetches ?s = [''/api/status/t1'']" "pollInterval ?s = Some 1"
    "timers ?s = [1]" "currentTaskId ?s = TaskId ''t1''" "console_errors ?s = []"
    by (simp_all add: polling_t1_def ctl_eval)
  have len: "0 < length (status_fetches ?s)"
    by (simp add: s)
  have pre: "pollInterval ?s = Some 1 \<and> 1 \<in> set (timers ?s) \<and> \<not> falsy_task (currentTaskId ?s)"
    by (simp add: s falsy_task_def)
  have c: "status (snapshot ''completed'' (Some 100)) = Some ''completed''"
    by (simp add: snapshot_def empty_object_def)
  note t = transport_failure_swallowed [OF len, of "''Failed to fetch''" 700 1]
  from t have "?s1 = ?s\<lparr>status_fetches := drop_at 0 (status_fetches ?s),
             console_errors := console_errors ?s @ [''Failed to fetch'']\<rparr>"
    by (rule conjunct1)
  then have s1: "?s1 = ?s\<lparr>status_fetches := [], console_errors := [''Failed to fetch'']\<rparr>"
    by (simp only: s drop_at_def take.simps drop.simps append.simps list.case nat.case)
  have s1': "status_fetches ?s1 = []"
    by (subst s1) simp
  from t [THEN conjunct2, rule_format, OF pre]
  have rest: "status_fetches ?s2 =
       status_fetches ?s1 @ [''/api/status/'' @ task_text (currentTaskId ?s)] \<and>
     (\<forall>data now'. status data = Some ''completed'' \<longrightarrow>
         (let s3 = step ?s2 (StatusSettled (length (status_fetches ?s1))
                                        (Response True (Obj data)) now')
          in resultContainer s3 \<and> \<not> progressContainer s3 \<and> \<not> errorContainer s3 \<and>
             pollInterval s3 = None \<and> 1 \<notin> set (timers s3) \<and> \<not> submitBtn s3))"
    unfolding Let_def by (elim conjE) (intro conjI)
  then have s2: "status_fetches ?s2 = [''/api/status/t1'']"
    unfolding s1' s by (simp add: task_text_def)
  from rest have "status (snapshot ''completed'' (Some 100)) = Some ''completed'' \<longrightarrow>
         (let s3 = step ?s2 (StatusSettled (length (status_fetches ?s1))
                      (Response True (Obj (snapshot ''completed'' (Some 100)))) 1200)
          in resultContainer s3 \<and> \<not> progressContainer s3 \<and> \<not> errorContainer s3 \<and>
             pollInterval s3 = None \<and> 1 \<notin> set (timers s3) \<and> \<not> submitBtn s3)"
    by blast
  with c have s3: "resultContainer ?s3 \<and> pollInterval ?s3 = None \<and> \<not> submitBtn ?s3"
    unfolding s1' Let_def list.size by blast
  have "timers_ok ?s"
    by (simp add: timers_ok_def s)
  then have "timers_ok ?s3"
    by (intro timers_ok_step)
  with s3 have "timers ?s3 = []"
    by (simp add: timers_ok_def)
  with s1 s2 s3 show ?thesis
    unfolding Let_def by (intro conjI) blast+
qed

text \<open>
  The \<^verbatim>\<open>else\<close> branch of the callback (task not found or expired). When a status request
  is answered with a response that is not ok and whose body \<^verbatim>\<open>response.json()\<close> can
  parse, the timer is stopped, the error view shows \<open>Download task expired\<close>, the button
  is enabled again, and nothing is retried: no request is launched, and no tick fires
  afterwards.
\<close>

theorem not_ok_status_expires_task:
  assumes "i < length (status_fetches s)" and "parsed b"
  shows "(let s' = step s (StatusSettled i (Response False b) now)
          in pollInterval s' = None \<and>
             (\<forall>h. pollInterval s = Some h \<longrightarrow> h \<notin> set (timers s')) \<and>
             errorContainer s' \<and> errorMessage s' = ''Download task expired'' \<and>
             \<not> progressContainer s' \<and> \<not> resultContainer s' \<and> \<not> submitBtn s' \<and>
             status_fetches s' = drop_at i (status_fetches s) \<and>
             (timers_ok s \<longrightarrow> timers s' = [] \<and> (\<forall>h. step s' (Tick h) = s')))"
proof -
  let ?s0 = "s\<lparr>status_fetches := drop_at i (status_fetches s)\<rparr>"
  have eq: "step s (StatusSettled i (Response False b) now) = task_expired ?s0"
    using assms by (simp add: step.simps status_settled_not_ok)
  have live: "h \<notin> set (timers (task_expired ?s0))" if "pollInterval s = Some h" for h
  proof -
    from that have "pollInterval ?s0 = Some h" by simp
    then have "h \<notin> set (timers (stopPolling ?s0))" by (rule stopPolling_not_live)
    then show ?thesis by (simp add: task_expired_fields)
  qed
  have none: "timers (task_expired ?s0) = [] \<and> (\<forall>h. step (task_expired ?s0) (Tick h) = task_expired ?s0)"
    if ok: "timers_ok s"
  proof -
    from ok have "timers_ok ?s0" by (simp add: timers_ok_def)
    then have "timers (task_expired ?s0) = []"
      by (simp add: task_expired_fields stopPolling_timers)
    then show ?thesis by (simp add: tick_without_timer)
  qed
  show ?thesis
    unfolding eq Let_def using live none by (simp add: task_expired_fields)
qed

theorem not_ok_status_expires_task_witness:
  "pollInterval (run new_downloader (polling_t1 @ [StatusSettled 0 (Response False NullBody) 700]))
     = None \<and>
   timers (run new_downloader (polling_t1 @ [StatusSettled 0 (Response False NullBody) 700])) = [] \<and>
   errorMessage (run new_downloader (polling_t1 @ [StatusSettled 0 (Response False NullBody) 700]))
     = ''Download task expired''"
proof -
  let ?s = "run new_downloader polling_t1"
  have s: "status_fetches ?s = [''/api/status/t1'']" "pollInterval ?s = Some 1" "timers ?s = [1]"
    by (simp_all add: polling_t1_def ctl_eval)
  have len: "0 < length (status_fetches ?s)" by (simp add: s)
  have ok: "timers_ok ?s" by (simp add: timers_ok_def s)
  have "parsed NullBody" by (simp add: parsed_def)
  from not_ok_status_expires_task [OF len this, of 700] ok
  have "pollInterval (step ?s (StatusSettled 0 (Response False NullBody) 700)) = None \<and>
        timers (step ?s (StatusSettled 0 (Response False NullBody) 700)) = [] \<and>
        errorMessage (step ?s (StatusSettled 0 (Response False NullBody) 700))
          = ''Download task expired''"
    unfolding Let_def by blast
  then show ?thesis
    by (simp add: run_append)
qed

text \<open>
  Claim C3. For every poll tick whose status request is answered with a response that is
  not ok, the timer is to be stopped and \<open>Download task expired\<close> shown, with no retry.
  The \<^verbatim>\<open>else\<close> branch of the callback does this when the body parses. The script misses
  it when the body is not JSON (an HTML error page): \<^verbatim>\<open>response.json()\<close> is awaited
  before \<^verbatim>\<open>response.ok\<close> is tested and throws, so the \<^verbatim>\<open>else\<close> branch is never reached.
  The error is only logged, no message is shown, the button stays disabled, the timer
  keeps running, and its next tick asks for the same task again.
\<close>

theorem not_ok_unparseable_keeps_polling:
  "pollInterval (run new_downloader not_found_html) = Some 1 \<and>
   timers (run new_downloader not_found_html) = [1] \<and>
   \<not> errorContainer (run new_downloader not_found_html) \<and>
   errorMessage (run new_downloader not_found_html) \<noteq> ''Download task expired'' \<and>
   submitBtn (run new_downloader not_found_html) \<and>
   console_errors (run new_downloader not_found_html) =
     [''Unexpected token < in JSON at position 0''] \<and>
   status_fetches (run new_downloader not_found_html) = [] \<and>
   status_fetches (run new_downloader (not_found_html @ [Tick 1])) = [''/api/status/t1'']"
  by (simp add: not_found_html_def polling_t1_def ctl_eval)

subsection \<open>Settling of a submission\<close>

lemma submit_failed_fields:
  "errorContainer (submit_failed msg s)"
  "errorMessage (submit_failed msg s) = msg"
  "\<not> progressContainer (submit_failed msg s)"
  "\<not> resultContainer (submit_failed msg s)"
  "\<not> submitBtn (submit_failed msg s)"
  "currentTaskId (submit_failed msg s) = currentTaskId s"
  "pollInterval (submit_failed msg s) = pollInterval s"
  "timers (submit_failed msg s) = timers s"
  "status_fetches (submit_failed msg s) = status_fetches s"
  by (simp_all add: submit_failed_def view_defs)

lemma submit_settled_not_ok:
  "\<exists>msg. submit_settled (Response False b) s = submit_failed msg s"
  by (cases b) (auto simp: submit_settled_def)

text \<open>
  Claim C6, as the code has it. When a submission is answered with a response that is not
  ok and whose body is a JSON object, the error view shows the \<^verbatim>\<open>message\<close> property if it
  is a non-empty string, otherwise the \<^verbatim>\<open>error\<close> property if it is a non-empty string,
  otherwise \<open>Download failed\<close>. For every response that is not ok, whatever its body, the
  error view is shown, no task id is stored and no polling starts: the task, the timer and
  the status requests are as they were.
\<close>

theorem submission_failure_message:
  assumes "i < length (submit_fetches s)"
  shows "errorMessage (step s (SubmitSettled i (Response False (Obj data)))) =
           (case message data of
              Some m \<Rightarrow>
                if m \<noteq> [] then m
                else (case error data of
                        Some e \<Rightarrow> if e \<noteq> [] then e else ''Download failed''
                      | None \<Rightarrow> ''Download failed'')
            | None \<Rightarrow>
                (case error data of
                   Some e \<Rightarrow> if e \<noteq> [] then e else ''Download failed''
                 | None \<Rightarrow> ''Download failed'')) \<and>
         (let s' = step s (SubmitSettled i (Response False b))
          in errorContainer s' \<and> \<not> progressContainer s' \<and> \<not> submitBtn s' \<and>
             currentTaskId s' = currentTaskId s \<and> pollInterval s' = pollInterval s \<and>
             timers s' = timers s \<and> status_fetches s' = status_fetches s)"
proof -
  let ?s0 = "s\<lparr>submit_fetches := drop_at i (submit_fetches s)\<rparr>"
  have eq: "step s (SubmitSettled i r) = submit_settled r ?s0" for r
    using assms by (simp add: step.simps)
  have "submit_settled (Response False (Obj data)) ?s0 =
        submit_failed (str_or (message data) (str_or (error data) ''Download failed'')) ?s0"
    by (simp add: submit_settled_def)
  then have first: "errorMessage (step s (SubmitSettled i (Response False (Obj data)))) =
        str_or (message data) (str_or (error data) ''Download failed'')"
    unfolding eq by (simp add: submit_failed_fields)
  obtain msg where "submit_settled (Response False b) ?s0 = submit_failed msg ?s0"
    using submit_settled_not_ok by blast
  then have second: "let s' = step s (SubmitSettled i (Response False b))
          in errorContainer s' \<and> \<not> progressContainer s' \<and> \<not> submitBtn s' \<and>
             currentTaskId s' = currentTaskId s \<and> pollInterval s' = pollInterval s \<and>
             timers s' = timers s \<and> status_fetches s' = status_fetches s"
    unfolding eq Let_def by (simp add: submit_failed_fields)
  show ?thesis
    unfolding first using second
    by (simp add: str_or_def split: option.splits)
qed

theorem submission_failure_message_witness:
  "errorMessage (run new_downloader
     [Submit ''https://youtu.be/abc123'' ''video'' ''best'',
      SubmitSettled 0 (Response False (Obj (empty_object\<lparr>error := Some ''Invalid URL''\<rparr>)))])
     = ''Invalid URL'' \<and>
   currentTaskId (run new_downloader
     [Submit ''https://youtu.be/abc123'' ''video'' ''best'',
      SubmitSettled 0 (Response False (Obj (empty_object\<lparr>error := Some ''Invalid URL''\<rparr>)))])
     = Null \<and>
   timers (run new_downloader
     [Submit ''https://youtu.be/abc123'' ''video'' ''best'',
      SubmitSettled 0 (Response False (Obj (empty_object\<lparr>error := Some ''Invalid URL''\<rparr>)))])
     = []"
proof -
  let ?s = "step new_downloader (Submit ''https://youtu.be/abc123'' ''video'' ''best'')"
  let ?d = "empty_object\<lparr>error := Some ''Invalid URL''\<rparr>"
  have s: "length (submit_fetches ?s) = 1" "currentTaskId ?s = Null" "timers ?s = []"
    by (simp_all add: ctl_eval)
  have len: "0 < length (submit_fetches ?s)" by (simp add: s)
  have d: "message ?d = None" "error ?d = Some ''Invalid URL''"
    by (simp_all add: empty_object_def)
  from submission_failure_message [OF len, of ?d "Obj ?d"]
  have "errorMessage (step ?s (SubmitSettled 0 (Response False (Obj ?d)))) = ''Invalid URL'' \<and>
        currentTaskId (step ?s (SubmitSettled 0 (Response False (Obj ?d)))) = currentTaskId ?s \<and>
        timers (step ?s (SubmitSettled 0 (Response False (Obj ?d)))) = timers ?s"
    unfolding Let_def d by simp
  then show ?thesis
    unfolding s by simp
qed

text \<open>
  Claim C6 as stated fails in two ways. A response that is not ok and whose body is not
  JSON is reported with the parser's message, not with \<open>Download failed\<close>; and a
  \<^verbatim>\<open>message\<close> property that is present but empty is passed over for the \<^verbatim>\<open>error\<close>
  property.
\<close>

theorem submission_failure_other_messages:
  "errorMessage (run new_downloader rejected_html) = ''Unexpected token < in JSON at position 0'' \<and>
   errorMessage (run new_downloader rejected_html) \<noteq> ''Download failed'' \<and>
   errorMessage (run new_downloader rejected_empty_message) = ''Bad URL'' \<and>
   errorMessage (run new_downloader rejected_empty_message) \<noteq> []"
  by (simp add: rejected_html_def rejected_empty_message_def ctl_eval)

subsection \<open>A new submission while a status request is in flight\<close>

lemma resetUI_fields:
  "currentTaskId (resetUI s) = Null"
  "pollInterval (resetUI s) = None"
  "lastPercent (resetUI s) = 0"
  "status_fetches (resetUI s) = status_fetches s"
  by (simp_all add: resetUI_def hideAllContainers_def)

lemma handleSubmit_valid:
  assumes "isValidYouTubeUrl u"
  shows "currentTaskId (handleSubmit u f q s) = Null"
    and "pollInterval (handleSubmit u f q s) = None"
    and "lastPercent (handleSubmit u f q s) = 0"
    and "status_fetches (handleSubmit u f q s) = status_fetches s"
    and "timers (handleSubmit u f q s) = timers (resetUI s)"
  using assms by (simp_all add: handleSubmit_def Let_def setLoadingState_def resetUI_fields)

text \<open>The continuation of a status request never looks at the requests in flight.\<close>

lemma status_settled_fetches:
  "status_settled r now (s\<lparr>status_fetches := xs\<rparr>) =
   (status_settled r now s)\<lparr>status_fetches := xs\<rparr>"
  by (simp add: status_settled_def poll_error_def task_expired_def view_defs poll_defs
      updateProgress_def animatePercentage_def Let_def
      split: fetch_result.splits body.splits option.splits)

lemma status_settled_snapshot:
  "progressFill (status_settled (Response True (Obj data)) now s) =
     min (num_or_zero (progress data)) 100"
  "progressStatus (status_settled (Response True (Obj data)) now s) = status_label (status data)"
  by (simp_all add: status_settled_def view_defs updateProgress_def animatePercentage_def Let_def)

text \<open>
  Claim C2, as the code has it. A new submission clears the active task and cancels the
  timer, so the old poller launches nothing more: no tick fires afterwards. The status
  requests already in flight stay in flight, and the callback has no check of task
  identity: when one of them is answered, the answer is handled exactly as an answer for
  any other task would be (the outcome does not depend on what the request was for), and
  a snapshot it carries is written to the progress bar and the status label.
\<close>

theorem resubmission_cancels_timer_only:
  assumes "timers_ok s" and "isValidYouTubeUrl u"
  shows "(let s' = step s (Submit u f q)
          in currentTaskId s' = Null \<and> pollInterval s' = None \<and> timers s' = [] \<and>
             (\<forall>h. step s' (Tick h) = s') \<and>
             status_fetches s' = status_fetches s \<and>
             (\<forall>i r now xs. i < length (status_fetches s') \<and> i < length xs \<longrightarrow>
                step s' (StatusSettled i r now) =
                  (step (s'\<lparr>status_fetches := xs\<rparr>) (StatusSettled i r now))
                    \<lparr>status_fetches := drop_at i (status_fetches s')\<rparr>) \<and>
             (\<forall>i data now. i < length (status_fetches s') \<longrightarrow>
                progressFill (step s' (StatusSettled i (Response True (Obj data)) now)) =
                  min (num_or_zero (progress data)) 100 \<and>
                progressStatus (step s' (StatusSettled i (Response True (Obj data)) now)) =
                  status_label (status data)))"
proof -
  let ?s' = "handleSubmit u f q s"
  have eq: "step s (Submit u f q) = ?s'"
    by (simp add: step.simps)
  have "timers_ok (resetUI s)"
    using assms(1) by (rule timers_ok_resetUI)
  then have t: "timers ?s' = []"
    using assms(2) by (simp add: handleSubmit_valid timers_ok_def resetUI_fields)
  have indep: "step ?s' (StatusSettled i r now) =
                  (step (?s'\<lparr>status_fetches := xs\<rparr>) (StatusSettled i r now))
                    \<lparr>status_fetches := drop_at i (status_fetches ?s')\<rparr>"
    if "i < length (status_fetches ?s') \<and> i < length xs" for i r now xs
  proof -
    have "step ?s' (StatusSettled i r now) =
          status_settled r now (?s'\<lparr>status_fetches := drop_at i (status_fetches ?s')\<rparr>)"
      using that by (simp add: step.simps)
    moreover have "step (?s'\<lparr>status_fetches := xs\<rparr>) (StatusSettled i r now) =
          status_settled r now (?s'\<lparr>status_fetches := drop_at i xs\<rparr>)"
      using that by (simp add: step.simps)
    ultimately show ?thesis
      by (simp add: status_settled_fetches)
  qed
  have applied: "progressFill (step ?s' (StatusSettled i (Response True (Obj data)) now)) =
                  min (num_or_zero (progress data)) 100 \<and>
                progressStatus (step ?s' (StatusSettled i (Response True (Obj data)) now)) =
                  status_label (status data)"
    if "i < length (status_fetches ?s')" for i data now
    using that by (simp add: step.simps status_settled_snapshot)
  show ?thesis
    unfolding eq Let_def
    using assms(2) t indep applied
    by (simp add: handleSubmit_valid tick_without_timer)
qed

theorem resubmission_cancels_timer_only_witness:
  "\<not> submitBtn (run new_downloader first_done) \<and>
   timers (run new_downloader
     (first_done @ [Submit ''https://youtu.be/xyz789'' ''audio'' ''best''])) = [] \<and>
   status_fetches (run new_downloader
     (first_done @ [Submit ''https://youtu.be/xyz789'' ''audio'' ''best''])) = [''/api/status/t1''] \<and>
   progressFill (run new_downloader
     (first_done @ [Submit ''https://youtu.be/xyz789'' ''audio'' ''best'',
                    StatusSettled 0 (Response True (Obj (snapshot ''downloading'' (Some 40)))) 1900]))
     = 40"
proof -
  let ?s = "run new_downloader first_done"
  let ?s' = "step ?s (Submit ''https://youtu.be/xyz789'' ''audio'' ''best'')"
  let ?d = "snapshot ''downloading'' (Some 40)"
  have s: "status_fetches ?s = [''/api/status/t1'']" "\<not> submitBtn ?s"
    by (simp_all add: first_done_def two_ticks_def ctl_eval)
  have ok: "timers_ok ?s"
    by (intro timers_ok_run timers_ok_new)
  have v: "isValidYouTubeUrl ''https://youtu.be/xyz789''"
    by (simp add: regex_eval)
  have d: "min (num_or_zero (progress ?d)) 100 = 40"
    by (simp add: snapshot_def empty_object_def num_or_zero_def)
  from resubmission_cancels_timer_only [OF ok v, of "''audio''" "''best''"]
  have r: "timers ?s' = []" "status_fetches ?s' = status_fetches ?s"
    "\<forall>i data now. i < length (status_fetches ?s') \<longrightarrow>
       progressFill (step ?s' (StatusSettled i (Response True (Obj data)) now)) =
         min (num_or_zero (progress data)) 100 \<and>
       progressStatus (step ?s' (StatusSettled i (Response True (Obj data)) now)) =
         status_label (status data)"
    unfolding Let_def by blast+
  from r(2) have len: "0 < length (status_fetches ?s')"
    by (simp add: s)
  from r(3) len have "progressFill (step ?s' (StatusSettled 0 (Response True (Obj ?d)) 1900)) =
         min (num_or_zero (progress ?d)) 100"
    by blast
  with r(1,2) show ?thesis
    by (simp add: run_append s d)
qed

text \<open>
  Claim C2 as stated fails: the answer to a status request of the old task, arriving
  after the new task was accepted, is not discarded. It is shown as the result, it stops
  the poller of the new task, and the download link is built from the new task's id.
\<close>

theorem late_answer_is_applied:
  "\<not> submitBtn (run new_downloader first_done) \<and>
   status_fetches (run new_downloader resubmitted) = [''/api/status/t1''] \<and>
   currentTaskId (run new_downloader resubmitted) = TaskId ''t2'' \<and>
   pollInterval (run new_downloader resubmitted) = Some 2 \<and>
   \<not> resultContainer (run new_downloader resubmitted) \<and>
   resultContainer (run new_downloader late_answer) \<and>
   resultFilename (run new_downloader late_answer) = ''old.mp4'' \<and>
   downloadBtn (run new_downloader late_answer) = ''/download/t2'' \<and>
   pollInterval (run new_downloader late_answer) = None \<and>
   timers (run new_downloader late_answer) = []"
  by (simp add: late_answer_def resubmitted_def first_done_def two_ticks_def ctl_eval)

subsection \<open>The displayed percentage\<close>


lemma easeOut_one [simp]: "easeOut 1 = 1"
  by (simp add: easeOut_def)



lemma js_round_le: "x \<le> of_int n \<Longrightarrow> js_round x \<le> n"
proof -
  assume "x \<le> of_int n"
  then have "x + 1 / 2 < of_int (n + 1)" by simp
  then have "\<lfloor>x + 1 / 2\<rfloor> < n + 1" by (simp only: floor_less_iff)
  then show ?thesis by (simp add: js_round_def)
qed

lemma js_round_ge: "of_int n \<le> x \<Longrightarrow> n \<le> js_round x"
proof -
  assume "of_int n \<le> x"
  then have "of_int n \<le> x + 1 / 2" by simp
  then show ?thesis by (simp add: js_round_def le_floor_iff)
qed

lemma js_round_of_int [simp]: "js_round (of_int n) = n"
proof -
  have "n \<le> js_round (of_int n)" by (rule js_round_ge) simp
  moreover have "js_round (of_int n) \<le> n" by (rule js_round_le) simp
  ultimately show ?thesis by simp
qed



lemma percent_inv_view [simp]:
  "percent_inv P (hideAllContainers s) = percent_inv P s"
  "percent_inv P (showError msg s) = percent_inv P s"
  "percent_inv P (showProgress s) = percent_inv P s"
  "percent_inv P (showResult data s) = percent_inv P s"
  "percent_inv P (setLoadingState b s) = percent_inv P s"
  "percent_inv P (stopPolling s) = percent_inv P s"
  "percent_inv P (startPolling s) = percent_inv P s"
  "percent_inv P (poll_error msg s) = percent_inv P s"
  "percent_inv P (s\<lparr>submit_fetches := xs\<rparr>) = percent_inv P s"
  "percent_inv P (s\<lparr>status_fetches := ys\<rparr>) = percent_inv P s"
  "percent_inv P (s\<lparr>currentTaskId := t\<rparr>) = percent_inv P s"
  by (simp_all add: percent_inv_def view_defs poll_defs poll_error_def Let_def
      split: option.splits)



lemma percent_inv_submit_settled [simp]:
  "percent_inv P (submit_settled r s) = percent_inv P s"
  by (simp add: submit_settled_def submit_failed_def split: fetch_result.splits body.splits)












subsection \<open>Animations\<close>











end
